theory Spec2Isabelle
  imports Main
begin

section \<open>Strings\<close>

text \<open>
  TypeScript strings are modelled as \<^typ>\<open>string\<close>, each \<^typ>\<open>char\<close> read as a code unit
  below 256. \<open>String.prototype.trim\<close> strips the ECMAScript WhiteSpace and LineTerminator
  code points from both ends; the ones below 256 are TAB, LF, VT, FF, CR, SPACE and NBSP.
\<close>

definition isWhiteSpace :: "char \<Rightarrow> bool" where
  "isWhiteSpace c \<longleftrightarrow> (of_char c :: nat) \<in> {9, 10, 11, 12, 13, 32, 160}"

definition trimStart :: "string \<Rightarrow> string" where
  "trimStart s = dropWhile isWhiteSpace s"

definition trimEnd :: "string \<Rightarrow> string" where
  "trimEnd s = rev (dropWhile isWhiteSpace (rev s))"

definition trim :: "string \<Rightarrow> string" where
  "trim s = trimEnd (trimStart s)"

text \<open>
  Number-to-string conversion of a non-negative integer, as a template literal performs
  it: decimal digits, most significant first, no leading zero.
\<close>

definition digit :: "nat \<Rightarrow> char" where
  "digit d = char_of (48 + d)"

fun toString_nat :: "nat \<Rightarrow> string" where
  "toString_nat n = (if n < 10 then [digit n] else toString_nat (n div 10) @ [digit (n mod 10)])"

declare toString_nat.simps [simp del]

definition toString_int :: "int \<Rightarrow> string" where
  "toString_int i = (if i < 0 then CHR ''-'' # toString_nat (nat (- i)) else toString_nat (nat i))"

section \<open>Entity model (task.model.ts)\<close>

text \<open>
  A \<open>Date\<close> is represented by its time value, the integer number of milliseconds since
  the epoch. The field \<open>id\<close> is called \<open>id_task\<close> because \<open>id\<close> is the identity
  function of HOL; the request fields carry a suffix since they share their names with
  the fields of \<open>Task\<close>. An optional field (\<open>title?: string\<close>) is an \<open>option\<close>:
  \<open>None\<close> is the omitted property. (A \<open>title\<close> or \<open>description\<close> that is present
  with the value \<open>undefined\<close> is treated by the code like an omitted one; a \<open>completed\<close>
  that is present with the value \<open>undefined\<close> is not modelled.)
\<close>

record Task =
  id_task :: string
  title :: string
  description :: string
  completed :: bool
  createdAt :: int
  updatedAt :: int

record CreateTaskRequest =
  title_c :: string
  description_c :: string

record UpdateTaskRequest =
  title_u :: "string option"
  description_u :: "string option"
  completed_u :: "bool option"

section \<open>Task store (task.service.ts)\<close>

text \<open>A JavaScript \<open>Error\<close> with its message.\<close>

datatype error = Error string

text \<open>
  The fields of the service: the collection, the value last pushed into the
  \<open>BehaviorSubject\<close>, and the id counter (a JavaScript number that is only ever
  incremented by one from 1; it is modelled by a natural number, exact as long as the
  counter stays below \<open>2 ^ 53\<close>).
\<close>

record TaskService =
  tasks :: "Task list"
  tasksSubject :: "Task list"
  nextId :: nat

text \<open>\<open>Array.prototype.findIndex\<close>: the first index whose element satisfies the
  predicate; \<open>None\<close> stands for the result \<open>-1\<close>.\<close>

fun findIndex :: "('a \<Rightarrow> bool) \<Rightarrow> 'a list \<Rightarrow> nat option" where
  "findIndex P [] = None"
| "findIndex P (x # xs) = (if P x then Some 0 else map_option Suc (findIndex P xs))"

text \<open>\<open>Array.prototype.splice(i, 1)\<close>: the array without the element at index \<open>i\<close>.\<close>

definition splice1 :: "nat \<Rightarrow> 'a list \<Rightarrow> 'a list" where
  "splice1 i xs = take i xs @ drop (Suc i) xs"

text \<open>
  \<open>generateId\<close> returns \<open>task_<nextId>_<Date.now()>\<close> and increments the counter. The
  argument \<open>now\<close> is the value that \<open>Date.now()\<close> returns at the call.
\<close>

definition generateId :: "TaskService \<Rightarrow> int \<Rightarrow> TaskService \<times> string" where
  "generateId s now =
     (s\<lparr>nextId := nextId s + 1\<rparr>,
      ''task_'' @ toString_nat (nextId s) @ ''_'' @ toString_int now)"

text \<open>
  Every operation takes the state of the service and returns the new state together with
  what the returned observable delivers: \<open>Inl\<close> the error of \<open>throwError\<close>, \<open>Inr\<close> the
  value of \<open>of(...)\<close>. The simulated latency delays only the delivery, the state change
  happens at the call.

  \<open>createTask\<close> reads the clock three times, in this order: \<open>Date.now()\<close> inside
  \<open>generateId\<close>, \<open>new Date()\<close> for \<open>createdAt\<close>, and \<open>new Date()\<close> for
  \<open>updatedAt\<close>. The three readings are the last three arguments.
\<close>

definition createTask ::
  "TaskService \<Rightarrow> CreateTaskRequest \<Rightarrow> int \<Rightarrow> int \<Rightarrow> int \<Rightarrow> TaskService \<times> (error + Task)" where
  "createTask s taskData now0 now1 now2 =
     (if trim (title_c taskData) = [] then (s, Inl (Error ''Task title is required''))
      else
        let (s1, newId) = generateId s now0;
            newTask = \<lparr>id_task = newId,
                       title = trim (title_c taskData),
                       description = trim (description_c taskData),
                       completed = False,
                       createdAt = now1,
                       updatedAt = now2\<rparr>;
            s2 = s1\<lparr>tasks := tasks s1 @ [newTask]\<rparr>;
            s3 = s2\<lparr>tasksSubject := tasks s2\<rparr>
        in (s3, Inr newTask))"

text \<open>
  \<open>a?.trim() || b\<close>: the trimmed string when the property is present and its trimmed
  value is not the empty string (the only falsy string), otherwise \<open>b\<close>.
\<close>

definition trim_or :: "string option \<Rightarrow> string \<Rightarrow> string" where
  "trim_or a b = (case a of None \<Rightarrow> b | Some v \<Rightarrow> if trim v = [] then b else trim v)"

text \<open>
  \<open>updateTask\<close>. The object literal spreads the existing task, then the request (which
  contributes \<open>completed\<close> when present; \<open>title\<close> and \<open>description\<close> are overwritten
  by the explicit properties that follow), then sets \<open>title\<close>, \<open>description\<close> and
  \<open>updatedAt\<close>. \<open>now\<close> is the reading of \<open>new Date()\<close>.
\<close>

definition updateTask ::
  "TaskService \<Rightarrow> string \<Rightarrow> UpdateTaskRequest \<Rightarrow> int \<Rightarrow> TaskService \<times> (error + Task)" where
  "updateTask s ident updates now =
     (case findIndex (\<lambda>t. id_task t = ident) (tasks s) of
        None \<Rightarrow> (s, Inl (Error (''Task with ID '' @ ident @ '' not found'')))
      | Some taskIndex \<Rightarrow>
          if title_u updates \<noteq> None \<and> trim (the (title_u updates)) = []
          then (s, Inl (Error ''Task title cannot be empty''))
          else
            let existingTask = tasks s ! taskIndex;
                updatedTask = existingTask
                  \<lparr>completed := (case completed_u updates of
                                   None \<Rightarrow> completed existingTask | Some b \<Rightarrow> b),
                   title := trim_or (title_u updates) (title existingTask),
                   description := trim_or (description_u updates) (description existingTask),
                   updatedAt := now\<rparr>;
                s1 = s\<lparr>tasks := (tasks s)[taskIndex := updatedTask]\<rparr>;
                s2 = s1\<lparr>tasksSubject := tasks s1\<rparr>
            in (s2, Inr updatedTask))"

definition deleteTask :: "TaskService \<Rightarrow> string \<Rightarrow> TaskService \<times> (error + bool)" where
  "deleteTask s ident =
     (case findIndex (\<lambda>t. id_task t = ident) (tasks s) of
        None \<Rightarrow> (s, Inl (Error (''Task with ID '' @ ident @ '' not found'')))
      | Some taskIndex \<Rightarrow>
          let s1 = s\<lparr>tasks := splice1 taskIndex (tasks s)\<rparr>;
              s2 = s1\<lparr>tasksSubject := tasks s1\<rparr>
          in (s2, Inr True))"

definition toggleTaskCompletion ::
  "TaskService \<Rightarrow> string \<Rightarrow> int \<Rightarrow> TaskService \<times> (error + Task)" where
  "toggleTaskCompletion s ident now =
     (case find (\<lambda>t. id_task t = ident) (tasks s) of
        None \<Rightarrow> (s, Inl (Error (''Task with ID '' @ ident @ '' not found'')))
      | Some task \<Rightarrow>
          updateTask s ident
            \<lparr>title_u = None, description_u = None, completed_u = Some (\<not> completed task)\<rparr> now)"

text \<open>
  The constructor: the field initialisers, then \<open>initializeSampleData\<close>, which creates
  the three sample tasks. Each creation has its own three clock readings.
\<close>

definition sampleTasks :: "CreateTaskRequest list" where
  "sampleTasks =
     [\<lparr>title_c = ''Learn Angular 18'',
       description_c = ''Study the new features and improvements in Angular 18''\<rparr>,
      \<lparr>title_c = ''Build Task Tracker'',
       description_c = ''Create a simple task management application''\<rparr>,
      \<lparr>title_c = ''Write Unit Tests'',
       description_c = ''Add comprehensive test coverage for all components''\<rparr>]"

type_synonym readings = "int \<times> int \<times> int"

definition initializeSampleData :: "TaskService \<Rightarrow> readings list \<Rightarrow> TaskService" where
  "initializeSampleData s rs =
     foldl (\<lambda>s (taskData, (now0, now1, now2)). fst (createTask s taskData now0 now1 now2))
       s (zip sampleTasks rs)"

definition new_TaskService :: "readings \<Rightarrow> readings \<Rightarrow> readings \<Rightarrow> TaskService" where
  "new_TaskService r1 r2 r3 =
     initializeSampleData \<lparr>tasks = [], tasksSubject = [], nextId = 1\<rparr> [r1, r2, r3]"

text \<open>
  A caller's use of the store over its lifetime: a sequence of calls, each with the clock
  readings it is given (a call that fails does not read the clock). \<open>perform\<close> is the
  state after a call, \<open>run\<close> the state after a sequence of calls, and \<open>created\<close>
  lists the ids of the tasks that the successful \<open>createTask\<close> calls of the sequence
  returned, in order.
\<close>

datatype call =
    Create CreateTaskRequest int int int
  | Update string UpdateTaskRequest int
  | Delete string
  | Toggle string int

fun perform :: "TaskService \<Rightarrow> call \<Rightarrow> TaskService" where
  "perform s (Create taskData now0 now1 now2) = fst (createTask s taskData now0 now1 now2)"
| "perform s (Update ident updates now) = fst (updateTask s ident updates now)"
| "perform s (Delete ident) = fst (deleteTask s ident)"
| "perform s (Toggle ident now) = fst (toggleTaskCompletion s ident now)"

definition run :: "TaskService \<Rightarrow> call list \<Rightarrow> TaskService" where
  "run s cs = foldl perform s cs"

fun returned_id :: "TaskService \<Rightarrow> call \<Rightarrow> string list" where
  "returned_id s (Create taskData now0 now1 now2) =
     (case snd (createTask s taskData now0 now1 now2) of
        Inl e \<Rightarrow> [] | Inr task \<Rightarrow> [id_task task])"
| "returned_id s c = []"

fun created :: "TaskService \<Rightarrow> call list \<Rightarrow> string list" where
  "created s [] = []"
| "created s (c # cs) = returned_id s c @ created (perform s c) cs"

text \<open>The ids that \<open>generateId\<close> produces while the counter is below \<open>k\<close>.\<close>

definition issued_below :: "nat \<Rightarrow> string \<Rightarrow> bool" where
  "issued_below k ident \<longleftrightarrow>
     (\<exists>n now. n < k \<and> ident = ''task_'' @ toString_nat n @ ''_'' @ toString_int now)"

definition ids_below :: "TaskService \<Rightarrow> bool" where
  "ids_below s \<longleftrightarrow> (\<forall>t \<in> set (tasks s). issued_below (nextId s) (id_task t))"

section \<open>Orchestrator (app.component.ts)\<close>

text \<open>
  The fields of the component. The field \<open>tasks\<close> is called \<open>tasks_app\<close>, the name
  \<open>tasks\<close> being taken by the store. Of the component's methods, the ones below are
  modelled: the messages, the editing reference, deletion, and teardown.
\<close>

record AppComponent =
  tasks_app :: "Task list"
  editingTask :: "Task option"
  isLoading :: bool
  isSubmitting :: bool
  errorMessage :: string
  successMessage :: string

text \<open>
  The component together with what it has registered outside itself: the store it was
  given, the callbacks it has handed to \<open>setTimeout\<close> and not yet seen run
  (\<open>timeouts\<close>: the instant each one is due; every such callback is the closure
  \<open>() => { this.successMessage = '' }\<close> of \<open>showSuccess\<close>), and its live
  subscriptions to delayed \<open>deleteTask\<close> results (\<open>subscriptions\<close>: the instant the
  \<open>next\<close> notification is due and the \<open>taskId\<close> its callback has captured). Instants
  are in milliseconds.
\<close>

record world =
  taskService :: TaskService
  component :: AppComponent
  timeouts :: "nat list"
  subscriptions :: "(nat \<times> string) list"

definition new_AppComponent :: AppComponent where
  "new_AppComponent =
     \<lparr>tasks_app = [], editingTask = None, isLoading = False, isSubmitting = False,
      errorMessage = [], successMessage = []\<rparr>"

definition clearMessages :: "AppComponent \<Rightarrow> AppComponent" where
  "clearMessages c = c\<lparr>errorMessage := [], successMessage := []\<rparr>"

text \<open>\<open>handleError\<close>: \<open>error?.message || message\<close>; the empty message is falsy.\<close>

definition handleError :: "string \<Rightarrow> error \<Rightarrow> AppComponent \<Rightarrow> AppComponent" where
  "handleError message err c =
     c\<lparr>errorMessage := (case err of Error m \<Rightarrow> if m = [] then message else m)\<rparr>"

text \<open>\<open>showSuccess\<close>, called at the instant \<open>now\<close>: the handle that \<open>setTimeout\<close> returns
  is dropped.\<close>

definition showSuccess :: "nat \<Rightarrow> string \<Rightarrow> world \<Rightarrow> world" where
  "showSuccess now message w =
     w\<lparr>component := (component w)\<lparr>successMessage := message\<rparr>,
       timeouts := timeouts w @ [now + 3000]\<rparr>"

definition timeout_callback :: "world \<Rightarrow> world" where
  "timeout_callback w = w\<lparr>component := (component w)\<lparr>successMessage := []\<rparr>\<rparr>"

text \<open>
  \<open>ngOnDestroy\<close>: \<open>destroy$\<close> emits and completes, so every subscription piped through
  \<open>takeUntil(this.destroy$)\<close> is unsubscribed. Nothing else is done.
\<close>

definition ngOnDestroy :: "world \<Rightarrow> world" where
  "ngOnDestroy w = w\<lparr>subscriptions := []\<rparr>"

text \<open>The \<open>next\<close> callback of \<open>onDeleteTask\<close>, run at the instant \<open>now\<close>.\<close>

definition next_onDeleteTask :: "nat \<Rightarrow> string \<Rightarrow> world \<Rightarrow> world" where
  "next_onDeleteTask now taskId w =
     (let w1 = showSuccess now ''Task deleted successfully!'' w
      in if map_option id_task (editingTask (component w1)) = Some taskId
         then w1\<lparr>component := (component w1)\<lparr>editingTask := None\<rparr>\<rparr>
         else w1)"

text \<open>
  \<open>onDeleteTask\<close>, called at the instant \<open>now\<close>. The store acts at the call. An error
  observable notifies at once, on subscription; a result is delivered after the store's
  delay of 100 ms, as long as the subscription is still alive.
\<close>

definition onDeleteTask :: "nat \<Rightarrow> string \<Rightarrow> world \<Rightarrow> world" where
  "onDeleteTask now taskId w =
     (let c1 = clearMessages (component w);
          (s1, result) = deleteTask (taskService w) taskId;
          w1 = w\<lparr>taskService := s1, component := c1\<rparr>
      in case result of
           Inl err \<Rightarrow> w1\<lparr>component := handleError ''Failed to delete task'' err c1\<rparr>
         | Inr ok \<Rightarrow> w1\<lparr>subscriptions := subscriptions w1 @ [(now + 100, taskId)]\<rparr>)"

definition onEditTask :: "Task \<Rightarrow> world \<Rightarrow> world" where
  "onEditTask task w = w\<lparr>component := clearMessages ((component w)\<lparr>editingTask := Some task\<rparr>)\<rparr>"

text \<open>
  One turn of the event loop at the instant \<open>now\<close>: the timeouts that are due run first
  (a timeout due together with a delivery was registered earlier, its delay being the
  longer one), then the due notifications are delivered. Both leave their queue. A turn
  is to be taken at every instant at which something is due.
\<close>

definition run_timeouts :: "nat \<Rightarrow> world \<Rightarrow> world" where
  "run_timeouts now w =
     foldl (\<lambda>w d. timeout_callback w)
       (w\<lparr>timeouts := filter (\<lambda>d. now < d) (timeouts w)\<rparr>)
       (filter (\<lambda>d. d \<le> now) (timeouts w))"

definition deliver :: "nat \<Rightarrow> world \<Rightarrow> world" where
  "deliver now w =
     foldl (\<lambda>w (d, taskId). next_onDeleteTask now taskId w)
       (w\<lparr>subscriptions := filter (\<lambda>(d, taskId). now < d) (subscriptions w)\<rparr>)
       (filter (\<lambda>(d, taskId). d \<le> now) (subscriptions w))"

definition turn :: "nat \<Rightarrow> world \<Rightarrow> world" where
  "turn now w = deliver now (run_timeouts now w)"

section \<open>Auxiliary definitions for the proofs\<close>

text \<open>The number that a string of decimal digits denotes (the inverse of \<open>toString_nat\<close>).\<close>

definition value_of :: "string \<Rightarrow> nat" where
  "value_of ds = foldl (\<lambda>a c. 10 * a + (of_char c - 48)) 0 ds"

text \<open>A freshly constructed service whose nine clock readings all returned 1000.\<close>

definition demo_service :: TaskService where
  "demo_service = new_TaskService (1000, 1000, 1000) (1000, 1000, 1000) (1000, 1000, 1000)"

text \<open>
  What it means for \<open>r\<close> to be \<open>original\<close> trimmed of leading and trailing whitespace:
  \<open>r\<close> is \<open>original\<close> without a prefix and a suffix of whitespace, and \<open>r\<close> itself
  neither starts nor ends with whitespace.
\<close>

definition trimmed_of :: "string \<Rightarrow> string \<Rightarrow> bool" where
  "trimmed_of original r \<longleftrightarrow>
     (\<exists>pre post. original = pre @ r @ post
        \<and> list_all isWhiteSpace pre \<and> list_all isWhiteSpace post)
     \<and> (r = [] \<or> (\<not> isWhiteSpace (hd r) \<and> \<not> isWhiteSpace (last r)))"

text \<open>
  A component on the constructed store, with the first sample task loaded into the edit
  form and nothing pending; and the same after \<open>onDeleteTask\<close> for the second sample
  task at the instant 0 and the delivery of its result at the instant 100.
\<close>

definition demo_world :: world where
  "demo_world =
     onEditTask (hd (tasks demo_service))
       \<lparr>taskService = demo_service, component = new_AppComponent,
        timeouts = [], subscriptions = []\<rparr>"

definition demo_shown :: world where
  "demo_shown = turn 100 (onDeleteTask 0 ''task_2_1000'' demo_world)"

text \<open>
  The clock readings that a call is given, in order, and the statement that every task
  of the collection was created no later than it was last updated, and last updated no
  later than the instant \<open>T\<close>.
\<close>

fun readings_of :: "call \<Rightarrow> int list" where
  "readings_of (Create taskData now0 now1 now2) = [now0, now1, now2]"
| "readings_of (Update ident updates now) = [now]"
| "readings_of (Delete ident) = []"
| "readings_of (Toggle ident now) = [now]"

definition stamped_upto :: "int \<Rightarrow> TaskService \<Rightarrow> bool" where
  "stamped_upto T s \<longleftrightarrow>
     (\<forall>t \<in> set (tasks s). createdAt t \<le> updatedAt t \<and> updatedAt t \<le> T)"

section \<open>Facts about strings\<close>

subsection \<open>Trimming\<close>

text \<open>
  \<open>trim\<close> returns the empty string exactly on strings of whitespace; otherwise it removes
  a prefix and a suffix of whitespace and leaves a string that neither starts nor ends
  with whitespace.
\<close>

lemma trim_Nil_iff: "trim s = [] \<longleftrightarrow> (\<forall>c \<in> set s. isWhiteSpace c)"
proof -
  have "trim s = [] \<longleftrightarrow> (\<forall>c \<in> set (dropWhile isWhiteSpace s). isWhiteSpace c)"
    by (auto simp: trim_def trimEnd_def trimStart_def)
  also have "\<dots> \<longleftrightarrow> dropWhile isWhiteSpace s = []"
  proof (cases "dropWhile isWhiteSpace s")
    case Nil
    then show ?thesis by (simp del: dropWhile_eq_Nil_conv)
  next
    case (Cons a as)
    then have "\<not> isWhiteSpace (hd (dropWhile isWhiteSpace s))"
      using hd_dropWhile [of isWhiteSpace s] by simp
    with Cons show ?thesis by auto
  qed
  also have "\<dots> \<longleftrightarrow> (\<forall>c \<in> set s. isWhiteSpace c)"
    by simp
  finally show ?thesis .
qed

lemma trimEnd_decomp:
  "s = trimEnd s @ rev (takeWhile isWhiteSpace (rev s))"
proof -
  have "rev s = takeWhile isWhiteSpace (rev s) @ dropWhile isWhiteSpace (rev s)"
    by simp
  then have "rev (rev s) = rev (takeWhile isWhiteSpace (rev s) @ dropWhile isWhiteSpace (rev s))"
    by (rule arg_cong)
  then show ?thesis
    by (simp only: rev_rev_ident rev_append trimEnd_def)
qed

lemma trim_decomp:
  "\<exists>pre post. s = pre @ trim s @ post \<and> list_all isWhiteSpace pre \<and> list_all isWhiteSpace post"
proof -
  let ?d = "trimStart s"
  have 1: "s = takeWhile isWhiteSpace s @ ?d"
    by (simp add: trimStart_def)
  have 2: "?d = trim s @ rev (takeWhile isWhiteSpace (rev ?d))"
    unfolding trim_def by (rule trimEnd_decomp)
  have 3: "list_all isWhiteSpace (takeWhile isWhiteSpace s)"
    by (simp add: list_all_iff) (meson set_takeWhileD)
  have 4: "list_all isWhiteSpace (rev (takeWhile isWhiteSpace (rev ?d)))"
    by (simp add: list_all_iff) (meson set_takeWhileD)
  from 1 2 have "s = takeWhile isWhiteSpace s @ trim s @ rev (takeWhile isWhiteSpace (rev ?d))"
    by simp
  with 3 4 show ?thesis by blast
qed

lemma trim_last: "trim s \<noteq> [] \<Longrightarrow> \<not> isWhiteSpace (last (trim s))"
  unfolding trim_def trimEnd_def
  by (simp add: last_rev hd_dropWhile)

lemma trim_hd: "trim s \<noteq> [] \<Longrightarrow> \<not> isWhiteSpace (hd (trim s))"
proof -
  assume ne: "trim s \<noteq> []"
  have "trimStart s = trim s @ rev (takeWhile isWhiteSpace (rev (trimStart s)))"
    unfolding trim_def by (rule trimEnd_decomp)
  with ne have "hd (trimStart s) = hd (trim s)"
    by (metis hd_append2)
  moreover from ne have "trimStart s \<noteq> []"
    by (auto simp: trim_def trimEnd_def)
  then have "\<not> isWhiteSpace (hd (trimStart s))"
    unfolding trimStart_def by (rule hd_dropWhile)
  ultimately show ?thesis by simp
qed

subsection \<open>Printing numbers\<close>

text \<open>
  The decimal representation has no underscore and determines the number, so the counter
  can be read back from an id.
\<close>

lemma toString_nat_no_underscore: "CHR ''_'' \<notin> set (toString_nat n)"
proof (induction n rule: toString_nat.induct)
  case (1 n)
  have d: "CHR ''_'' \<noteq> digit k" if "k < 10" for k
  proof
    assume "CHR ''_'' = digit k"
    then have "(of_char (digit k) :: nat) = of_char CHR ''_''" by simp
    with that show False by (simp add: digit_def)
  qed
  show ?case
  proof (cases "n < 10")
    case True
    then show ?thesis by (subst toString_nat.simps) (simp add: d)
  next
    case False
    with 1 show ?thesis by (subst toString_nat.simps) (simp add: d)
  qed
qed

lemma of_char_digit: "k < 10 \<Longrightarrow> of_char (digit k) = (48 + k :: nat)"
  by (simp add: digit_def)

lemma value_of_toString_nat: "value_of (toString_nat n) = n"
proof (induction n rule: toString_nat.induct)
  case (1 n)
  show ?case
  proof (cases "n < 10")
    case True
    then show ?thesis
      by (subst toString_nat.simps) (simp add: value_of_def of_char_digit)
  next
    case False
    with 1 have "value_of (toString_nat (n div 10)) = n div 10" by simp
    with False show ?thesis
      by (subst toString_nat.simps) (simp add: value_of_def of_char_digit)
  qed
qed

lemma toString_nat_inj:
  assumes "toString_nat m = toString_nat n"
  shows "m = n"
proof -
  from assms have "value_of (toString_nat m) = value_of (toString_nat n)"
    by simp
  then show ?thesis
    by (simp only: value_of_toString_nat)
qed

lemma takeWhile_until:
  "x \<notin> set xs \<Longrightarrow> takeWhile (\<lambda>c. c \<noteq> x) (xs @ x # r) = xs"
  by (induction xs) auto

lemma id_counter_inj:
  assumes "''task_'' @ toString_nat m @ ''_'' @ a = ''task_'' @ toString_nat n @ ''_'' @ b"
  shows "m = n"
proof -
  from assms have "toString_nat m @ CHR ''_'' # a = toString_nat n @ CHR ''_'' # b"
    by simp
  then have "takeWhile (\<lambda>c. c \<noteq> CHR ''_'') (toString_nat m @ CHR ''_'' # a)
           = takeWhile (\<lambda>c. c \<noteq> CHR ''_'') (toString_nat n @ CHR ''_'' # b)"
    by simp
  then have "toString_nat m = toString_nat n"
    by (simp only: takeWhile_until [OF toString_nat_no_underscore])
  then show ?thesis by (rule toString_nat_inj)
qed

subsection \<open>Trimming, continued\<close>

text \<open>
  A string that neither starts nor ends with whitespace is its own \<open>trim\<close>, and \<open>trim\<close>
  is the only function that meets \<open>trimmed_of\<close>.
\<close>

lemma trim_id:
  assumes "s \<noteq> []" "\<not> isWhiteSpace (hd s)" "\<not> isWhiteSpace (last s)"
  shows "trim s = s"
proof -
  from assms(1,2) have 1: "trimStart s = s"
    by (cases s) (simp_all add: trimStart_def)
  from assms(1,3) have "dropWhile isWhiteSpace (rev s) = rev s"
    by (cases "rev s") (simp_all add: last_rev [symmetric] hd_rev)
  then have "trimEnd s = s"
    by (simp add: trimEnd_def)
  with 1 show ?thesis
    by (simp add: trim_def)
qed

lemma trim_trimmed_of: "trimmed_of s (trim s)"
  unfolding trimmed_of_def using trim_decomp [of s] trim_hd [of s] trim_last [of s] by blast

lemma trimmed_of_unique:
  assumes "trimmed_of s r"
  shows "r = trim s"
proof -
  from assms obtain pre post where d: "s = pre @ r @ post"
    "list_all isWhiteSpace pre" "list_all isWhiteSpace post"
    and e: "r = [] \<or> (\<not> isWhiteSpace (hd r) \<and> \<not> isWhiteSpace (last r))"
    unfolding trimmed_of_def by blast
  show ?thesis
  proof (cases "r = []")
    case True
    with d have "\<forall>c \<in> set s. isWhiteSpace c"
      by (auto simp: list_all_iff)
    then have "trim s = []"
      by (simp add: trim_Nil_iff)
    with True show ?thesis by simp
  next
    case False
    with e have h: "\<not> isWhiteSpace (hd r)" and l: "\<not> isWhiteSpace (last r)"
      by simp_all
    from False h have "dropWhile isWhiteSpace (r @ post) = r @ post"
      by (cases r) simp_all
    with d(2) have 1: "trimStart s = r @ post"
      by (simp add: trimStart_def d(1) dropWhile_append2 list_all_iff)
    from False l have "dropWhile isWhiteSpace (rev r) = rev r"
      by (cases "rev r") (simp_all add: last_rev [symmetric] hd_rev)
    with d(3) have "dropWhile isWhiteSpace (rev post @ rev r) = rev r"
      by (simp add: dropWhile_append list_all_iff)
    then have "trimEnd (r @ post) = r"
      by (simp add: trimEnd_def)
    with 1 show ?thesis
      by (simp add: trim_def)
  qed
qed

section \<open>Facts about the store operations\<close>

subsection \<open>Searching the collection\<close>

lemma findIndex_None_iff: "findIndex P xs = None \<longleftrightarrow> (\<forall>x \<in> set xs. \<not> P x)"
  by (induction xs) auto

lemma findIndex_Some:
  "findIndex P xs = Some i \<Longrightarrow> i < length xs \<and> P (xs ! i) \<and> (\<forall>j < i. \<not> P (xs ! j))"
proof (induction xs arbitrary: i)
  case Nil
  then show ?case by simp
next
  case (Cons x xs)
  show ?case
  proof (cases "P x")
    case True
    with Cons.prems show ?thesis by simp
  next
    case False
    with Cons.prems obtain k where k: "findIndex P xs = Some k" "i = Suc k"
      by auto
    from Cons.IH [OF k(1)] False k(2) show ?thesis
      by (auto simp: nth_Cons split: nat.splits)
  qed
qed

lemma find_findIndex: "find P xs = map_option (\<lambda>i. xs ! i) (findIndex P xs)"
  by (induction xs) (auto simp: option.map_comp comp_def)

lemma find_Some_findIndex:
  "find P xs = Some x \<Longrightarrow> \<exists>i. findIndex P xs = Some i \<and> xs ! i = x"
  by (auto simp: find_findIndex)

lemma absent_findIndex:
  "ident \<notin> id_task ` set ts \<Longrightarrow> findIndex (\<lambda>t. id_task t = ident) ts = None"
  by (auto simp: findIndex_None_iff)

subsection \<open>What each operation returns\<close>

lemma updateTask_not_found:
  "ident \<notin> id_task ` set (tasks s) \<Longrightarrow>
   updateTask s ident updates now = (s, Inl (Error (''Task with ID '' @ ident @ '' not found'')))"
  by (simp add: updateTask_def absent_findIndex)

lemma deleteTask_not_found:
  "ident \<notin> id_task ` set (tasks s) \<Longrightarrow>
   deleteTask s ident = (s, Inl (Error (''Task with ID '' @ ident @ '' not found'')))"
  by (simp add: deleteTask_def absent_findIndex)

lemma toggleTaskCompletion_not_found:
  "ident \<notin> id_task ` set (tasks s) \<Longrightarrow>
   toggleTaskCompletion s ident now = (s, Inl (Error (''Task with ID '' @ ident @ '' not found'')))"
  by (simp add: toggleTaskCompletion_def find_findIndex absent_findIndex)

lemma createTask_blank:
  "trim (title_c taskData) = [] \<Longrightarrow>
   createTask s taskData now0 now1 now2 = (s, Inl (Error ''Task title is required''))"
  by (simp add: createTask_def)

lemma createTask_valid:
  assumes "trim (title_c taskData) \<noteq> []"
  shows "createTask s taskData now0 now1 now2 =
    (let task = \<lparr>id_task = ''task_'' @ toString_nat (nextId s) @ ''_'' @ toString_int now0,
                 title = trim (title_c taskData),
                 description = trim (description_c taskData),
                 completed = False, createdAt = now1, updatedAt = now2\<rparr>
     in (\<lparr>tasks = tasks s @ [task], tasksSubject = tasks s @ [task], nextId = nextId s + 1\<rparr>,
         Inr task))"
  using assms by (simp add: createTask_def generateId_def Let_def)

lemma updateTask_blank_title:
  assumes "ident \<in> id_task ` set (tasks s)"
    and "title_u updates = Some t" and "list_all isWhiteSpace t"
  shows "updateTask s ident updates now = (s, Inl (Error ''Task title cannot be empty''))"
proof -
  from assms(1) obtain i where "findIndex (\<lambda>t. id_task t = ident) (tasks s) = Some i"
    using findIndex_None_iff [of "\<lambda>t. id_task t = ident" "tasks s"] by fastforce
  moreover from assms(3) have "trim t = []"
    by (simp add: trim_Nil_iff list_all_iff)
  ultimately show ?thesis
    using assms(2) by (simp add: updateTask_def)
qed

lemma findIndex_update:
  "findIndex P xs = Some i \<Longrightarrow> P y \<Longrightarrow> findIndex P (xs[i := y]) = Some i"
proof (induction xs arbitrary: i)
  case Nil
  then show ?case by simp
next
  case (Cons x xs)
  then show ?case
    by (cases "P x") auto
qed

lemma present_findIndex:
  "find P xs = Some x \<Longrightarrow> \<exists>i. findIndex P xs = Some i \<and> i < length xs \<and> xs ! i = x \<and> P x"
  using findIndex_Some [of P xs] by (auto simp: find_findIndex)

lemma updateTask_valid:
  assumes "findIndex (\<lambda>t. id_task t = ident) (tasks s) = Some i"
    and "title_u updates = None \<or> trim (the (title_u updates)) \<noteq> []"
    and "tasks s ! i = old"
  shows "updateTask s ident updates now =
    (let new = old
           \<lparr>completed := (case completed_u updates of None \<Rightarrow> completed old | Some b \<Rightarrow> b),
            title := trim_or (title_u updates) (title old),
            description := trim_or (description_u updates) (description old),
            updatedAt := now\<rparr>
     in (s\<lparr>tasks := (tasks s)[i := new], tasksSubject := (tasks s)[i := new]\<rparr>, Inr new))"
  using assms by (auto simp: updateTask_def Let_def split: option.splits)

lemma find_after_update:
  assumes "findIndex (\<lambda>t. id_task t = ident) ts = Some i" and "id_task new = ident"
  shows "find (\<lambda>t. id_task t = ident) (ts[i := new]) = Some new"
proof -
  from assms have "findIndex (\<lambda>t. id_task t = ident) (ts[i := new]) = Some i"
    by (simp add: findIndex_update)
  moreover from assms(1) have "i < length ts"
    by (simp add: findIndex_Some)
  ultimately show ?thesis
    by (simp add: find_findIndex)
qed

lemma toggleTaskCompletion_valid:
  assumes "find (\<lambda>t. id_task t = ident) (tasks s) = Some old"
  shows "\<exists>s'. toggleTaskCompletion s ident now =
           (s', Inr (old\<lparr>completed := \<not> completed old, updatedAt := now\<rparr>))
       \<and> find (\<lambda>t. id_task t = ident) (tasks s') =
           Some (old\<lparr>completed := \<not> completed old, updatedAt := now\<rparr>)"
proof -
  from assms obtain i where i: "findIndex (\<lambda>t. id_task t = ident) (tasks s) = Some i"
    "tasks s ! i = old" "id_task old = ident"
    using present_findIndex [of "\<lambda>t. id_task t = ident" "tasks s" old] by blast
  let ?new = "old\<lparr>completed := \<not> completed old, updatedAt := now\<rparr>"
  let ?s' = "s\<lparr>tasks := (tasks s)[i := ?new], tasksSubject := (tasks s)[i := ?new]\<rparr>"
  have "toggleTaskCompletion s ident now = (?s', Inr ?new)"
    using assms
    by (simp add: toggleTaskCompletion_def updateTask_valid [OF i(1) _ i(2)] trim_or_def Let_def)
  moreover have "find (\<lambda>t. id_task t = ident) (tasks ?s') = Some ?new"
    using find_after_update [OF i(1), of ?new] i(3) by simp
  ultimately show ?thesis by blast
qed

lemma updateTask_blank_description:
  assumes "find (\<lambda>t. id_task t = ident) (tasks s) = Some old"
    and "list_all isWhiteSpace d"
  shows "\<exists>s' new. updateTask s ident
           \<lparr>title_u = None, description_u = Some d, completed_u = None\<rparr> now = (s', Inr new)
         \<and> description new = description old"
proof -
  from assms(1) obtain i where i: "findIndex (\<lambda>t. id_task t = ident) (tasks s) = Some i"
    "tasks s ! i = old"
    using present_findIndex [of "\<lambda>t. id_task t = ident" "tasks s" old] by blast
  from assms(2) have "trim d = []"
    by (simp add: trim_Nil_iff list_all_iff)
  then show ?thesis
    by (simp add: updateTask_valid [OF i(1) _ i(2)] trim_or_def Let_def)
qed

subsection \<open>The id counter\<close>

text \<open>
  The counter never decreases, every id in the collection was made from a smaller value
  of the counter, and an id made from the current value is none of those.
\<close>

lemma issued_below_mono:
  assumes "issued_below k ident" and "k \<le> k'"
  shows "issued_below k' ident"
proof -
  from assms(1) obtain n now where "n < k"
    "ident = ''task_'' @ toString_nat n @ ''_'' @ toString_int now"
    unfolding issued_below_def by blast
  with assms(2) have "n < k' \<and> ident = ''task_'' @ toString_nat n @ ''_'' @ toString_int now"
    by simp
  then show ?thesis
    unfolding issued_below_def by blast
qed

lemma generated_not_below:
  "\<not> issued_below k (''task_'' @ toString_nat k @ ''_'' @ toString_int now)"
proof
  assume "issued_below k (''task_'' @ toString_nat k @ ''_'' @ toString_int now)"
  then obtain n now' where n: "n < k"
    "''task_'' @ toString_nat k @ ''_'' @ toString_int now =
     ''task_'' @ toString_nat n @ ''_'' @ toString_int now'"
    unfolding issued_below_def by blast
  from id_counter_inj [OF n(2)] n(1) show False
    by simp
qed

lemma generated_below:
  "issued_below (Suc k) (''task_'' @ toString_nat k @ ''_'' @ toString_int now)"
  unfolding issued_below_def by blast

lemma createTask_nextId:
  "nextId (fst (createTask s taskData now0 now1 now2)) =
     (if trim (title_c taskData) = [] then nextId s else Suc (nextId s))"
  by (simp add: createTask_blank createTask_valid Let_def)

lemma updateTask_cases:
  obtains (failed) e where "updateTask s ident updates now = (s, Inl e)"
  | (updated) i new where "i < length (tasks s)" "id_task new = id_task (tasks s ! i)"
      "updateTask s ident updates now =
         (s\<lparr>tasks := (tasks s)[i := new], tasksSubject := (tasks s)[i := new]\<rparr>, Inr new)"
      "createdAt new = createdAt (tasks s ! i)" "updatedAt new = now"
proof (cases "findIndex (\<lambda>t. id_task t = ident) (tasks s)")
  case None
  then show ?thesis
    by (intro failed) (simp add: updateTask_def)
next
  case (Some i)
  show ?thesis
  proof (cases "title_u updates = None \<or> trim (the (title_u updates)) \<noteq> []")
    case True
    from Some have "i < length (tasks s)"
      by (simp add: findIndex_Some)
    let ?new = "(tasks s ! i)
           \<lparr>completed := (case completed_u updates of
                            None \<Rightarrow> completed (tasks s ! i) | Some b \<Rightarrow> b),
            title := trim_or (title_u updates) (title (tasks s ! i)),
            description := trim_or (description_u updates) (description (tasks s ! i)),
            updatedAt := now\<rparr>"
    from updateTask_valid [OF Some True refl, of now]
    have "updateTask s ident updates now =
       (s\<lparr>tasks := (tasks s)[i := ?new], tasksSubject := (tasks s)[i := ?new]\<rparr>, Inr ?new)"
      by (simp add: Let_def)
    with \<open>i < length (tasks s)\<close> show ?thesis
      by (intro updated [of i ?new]) simp_all
  next
    case False
    with Some show ?thesis
      by (intro failed) (simp add: updateTask_def)
  qed
qed

lemma updateTask_nextId: "nextId (fst (updateTask s ident updates now)) = nextId s"
  by (cases rule: updateTask_cases [of s ident updates now]) simp_all

lemma updateTask_ids:
  "id_task ` set (tasks (fst (updateTask s ident updates now))) = id_task ` set (tasks s)"
proof (cases rule: updateTask_cases [of s ident updates now])
  case (failed e)
  then show ?thesis by simp
next
  case (updated i new)
  have "map id_task ((tasks s)[i := new]) = map id_task (tasks s)"
    using updated(1,2) by (simp add: map_update list_update_same_conv)
  then have "set (map id_task ((tasks s)[i := new])) = set (map id_task (tasks s))"
    by simp
  with updated(3) show ?thesis
    by (simp del: set_map add: set_map [symmetric])
qed

lemma toggleTaskCompletion_eq_update:
  "\<exists>updates. toggleTaskCompletion s ident now = updateTask s ident updates now"
proof (cases "find (\<lambda>t. id_task t = ident) (tasks s)")
  case None
  then have "ident \<notin> id_task ` set (tasks s)"
    by (auto simp: find_None_iff)
  then show ?thesis
    by (simp add: toggleTaskCompletion_not_found updateTask_not_found)
next
  case (Some a)
  then show ?thesis
    by (auto simp: toggleTaskCompletion_def)
qed

lemma deleteTask_nextId: "nextId (fst (deleteTask s ident)) = nextId s"
  by (simp add: deleteTask_def Let_def split: option.splits)

lemma deleteTask_ids: "set (tasks (fst (deleteTask s ident))) \<subseteq> set (tasks s)"
  by (auto simp: deleteTask_def Let_def splice1_def split: option.splits
      dest: in_set_takeD in_set_dropD)

lemma perform_nextId: "nextId s \<le> nextId (perform s c)"
proof (cases c)
  case (Toggle ident now)
  obtain u where "toggleTaskCompletion s ident now = updateTask s ident u now"
    using toggleTaskCompletion_eq_update by blast
  with Toggle show ?thesis by (simp add: updateTask_nextId)
qed (simp_all add: createTask_nextId updateTask_nextId deleteTask_nextId)

lemma perform_ids_below:
  assumes "ids_below s"
  shows "ids_below (perform s c)"
proof (cases c)
  case (Create taskData now0 now1 now2)
  show ?thesis
  proof (cases "trim (title_c taskData) = []")
    case True
    with Create assms show ?thesis by (simp add: createTask_blank)
  next
    case False
    from assms have "\<forall>t \<in> set (tasks s). issued_below (Suc (nextId s)) (id_task t)"
      unfolding ids_below_def by (meson issued_below_mono le_SucI order_refl)
    with Create False show ?thesis
      by (simp add: createTask_valid Let_def ids_below_def generated_below [simplified])
  qed
next
  case (Update ident updates now)
  with assms show ?thesis
    using updateTask_ids [of s ident updates now]
    by (simp add: ids_below_def updateTask_nextId) (metis imageE image_eqI)
next
  case (Delete ident)
  with assms show ?thesis
    using deleteTask_ids [of s ident] by (auto simp: ids_below_def deleteTask_nextId)
next
  case (Toggle ident now)
  obtain u where u: "toggleTaskCompletion s ident now = updateTask s ident u now"
    using toggleTaskCompletion_eq_update by blast
  with Toggle assms show ?thesis
    using updateTask_ids [of s ident u now]
    by (simp add: ids_below_def updateTask_nextId) (metis imageE image_eqI)
qed

subsection \<open>Sequences of calls\<close>

lemma run_Cons: "run s (c # cs) = run (perform s c) cs"
  by (simp add: run_def)

lemma run_append: "run s (cs @ ds) = run (run s cs) ds"
  by (simp add: run_def)

lemma run_nextId: "nextId s \<le> nextId (run s cs)"
proof (induction cs arbitrary: s)
  case Nil
  then show ?case by (simp add: run_def)
next
  case (Cons c cs)
  have "nextId s \<le> nextId (perform s c)" by (rule perform_nextId)
  also have "\<dots> \<le> nextId (run (perform s c) cs)" by (rule Cons.IH)
  finally show ?case by (simp add: run_Cons)
qed

lemma run_ids_below: "ids_below s \<Longrightarrow> ids_below (run s cs)"
proof (induction cs arbitrary: s)
  case Nil
  then show ?case by (simp add: run_def)
next
  case (Cons c cs)
  then show ?case by (simp add: run_Cons perform_ids_below)
qed

lemma returned_id_range:
  "ident \<in> set (returned_id s c) \<Longrightarrow>
   issued_below (nextId (perform s c)) ident \<and> \<not> issued_below (nextId s) ident"
proof (cases c)
  case (Create taskData now0 now1 now2)
  assume "ident \<in> set (returned_id s c)"
  with Create show ?thesis
    by (cases "trim (title_c taskData) = []")
      (simp_all add: createTask_blank createTask_valid Let_def generated_below [simplified]
        generated_not_below [simplified])
qed simp_all

lemma created_range:
  "ident \<in> set (created s cs) \<Longrightarrow>
   issued_below (nextId (run s cs)) ident \<and> \<not> issued_below (nextId s) ident"
proof (induction cs arbitrary: s)
  case Nil
  then show ?case by simp
next
  case (Cons c cs)
  from Cons.prems consider "ident \<in> set (returned_id s c)"
    | "ident \<in> set (created (perform s c) cs)"
    by auto
  then show ?case
  proof cases
    case 1
    then have "issued_below (nextId (perform s c)) ident" "\<not> issued_below (nextId s) ident"
      using returned_id_range by blast+
    then show ?thesis
      using issued_below_mono [OF _ run_nextId [of "perform s c" cs]]
      by (simp add: run_Cons)
  next
    case 2
    from Cons.IH [OF 2] have "issued_below (nextId (run s (c # cs))) ident"
      "\<not> issued_below (nextId (perform s c)) ident"
      by (simp_all add: run_Cons)
    then show ?thesis
      using issued_below_mono [OF _ perform_nextId [of s c]] by blast
  qed
qed

lemma returned_id_distinct: "distinct (returned_id s c)"
  by (cases c) (simp_all split: sum.splits)

lemma created_distinct: "distinct (created s cs)"
proof (induction cs arbitrary: s)
  case Nil
  then show ?case by simp
next
  case (Cons c cs)
  have "set (returned_id s c) \<inter> set (created (perform s c) cs) = {}"
    using returned_id_range [of _ s c] created_range [of _ "perform s c" cs] by blast
  with Cons.IH [of "perform s c"] show ?case
    by (simp add: returned_id_distinct)
qed

lemma created_fresh:
  assumes "ids_below s"
  shows "id_task ` set (tasks s) \<inter> set (created s cs) = {}"
  using assms created_range [of _ s cs] unfolding ids_below_def by blast

subsection \<open>A successful update, field by field\<close>

lemma updateTask_fields:
  assumes "find (\<lambda>t. id_task t = ident) (tasks s) = Some old"
    and "title_u updates = None \<or> trim (the (title_u updates)) \<noteq> []"
  shows "\<exists>new s' i. updateTask s ident updates now = (s', Inr new)
      \<and> i < length (tasks s) \<and> tasks s ! i = old \<and> tasks s' = (tasks s)[i := new]
      \<and> find (\<lambda>t. id_task t = ident) (tasks s') = Some new
      \<and> id_task new = id_task old \<and> createdAt new = createdAt old
      \<and> (title_u updates = None \<longrightarrow> title new = title old)
      \<and> (description_u updates = None \<longrightarrow> description new = description old)
      \<and> (completed_u updates = None \<longrightarrow> completed new = completed old)
      \<and> updatedAt new = now
      \<and> (updatedAt old \<le> now \<longrightarrow> updatedAt old \<le> updatedAt new)"
proof -
  from assms(1) obtain i where i: "findIndex (\<lambda>t. id_task t = ident) (tasks s) = Some i"
    "i < length (tasks s)" "tasks s ! i = old" "id_task old = ident"
    using present_findIndex [of "\<lambda>t. id_task t = ident" "tasks s" old] by blast
  define new where "new = old
           \<lparr>completed := (case completed_u updates of None \<Rightarrow> completed old | Some b \<Rightarrow> b),
            title := trim_or (title_u updates) (title old),
            description := trim_or (description_u updates) (description old),
            updatedAt := now\<rparr>"
  define s' where "s' = s\<lparr>tasks := (tasks s)[i := new], tasksSubject := (tasks s)[i := new]\<rparr>"
  have 1: "updateTask s ident updates now = (s', Inr new)"
    using updateTask_valid [OF i(1) assms(2) i(3), of now] by (simp add: new_def s'_def Let_def)
  have 2: "id_task new = ident"
    by (simp add: new_def i(4))
  have 3: "find (\<lambda>t. id_task t = ident) (tasks s') = Some new"
    using find_after_update [OF i(1) 2] by (simp add: s'_def)
  have 4: "tasks s' = (tasks s)[i := new]"
    by (simp add: s'_def)
  have 5: "id_task new = id_task old" "createdAt new = createdAt old" "updatedAt new = now"
    by (simp_all add: new_def)
  have 6: "title_u updates = None \<longrightarrow> title new = title old"
    "description_u updates = None \<longrightarrow> description new = description old"
    "completed_u updates = None \<longrightarrow> completed new = completed old"
    by (simp_all add: new_def trim_or_def)
  from 1 i(2,3) 3 4 5 6 show ?thesis
    by auto
qed

section \<open>The constructed store\<close>

text \<open>
  The constructor leaves the three sample tasks in the collection, with the ids
  \<open>task_1_...\<close>, \<open>task_2_...\<close>, \<open>task_3_...\<close>, and the counter at 4.
\<close>

lemma trim_sampleTasks:
  "trim ''Learn Angular 18'' = ''Learn Angular 18''"
  "trim ''Study the new features and improvements in Angular 18'' =
     ''Study the new features and improvements in Angular 18''"
  "trim ''Build Task Tracker'' = ''Build Task Tracker''"
  "trim ''Create a simple task management application'' =
     ''Create a simple task management application''"
  "trim ''Write Unit Tests'' = ''Write Unit Tests''"
  "trim ''Add comprehensive test coverage for all components'' =
     ''Add comprehensive test coverage for all components''"
  by (rule trim_id; simp add: isWhiteSpace_def)+

lemma toString_nat_digit: "n < 10 \<Longrightarrow> toString_nat n = [digit n]"
  by (subst toString_nat.simps) simp

lemma digit_chars:
  "digit 0 = CHR ''0''" "digit 1 = CHR ''1''" "digit 2 = CHR ''2''" "digit 3 = CHR ''3''"
  "digit 4 = CHR ''4''" "digit 5 = CHR ''5''" "digit 6 = CHR ''6''" "digit 7 = CHR ''7''"
  "digit 8 = CHR ''8''" "digit 9 = CHR ''9''"
  "digit (Suc 0) = CHR ''1''" "digit (Suc (Suc 0)) = CHR ''2''"
  "digit (Suc (Suc (Suc 0))) = CHR ''3''"
  by code_simp+

lemma new_TaskService_eq:
  "new_TaskService (a0, a1, a2) (b0, b1, b2) (c0, c1, c2) =
     (let ts =
        [\<lparr>id_task = ''task_1_'' @ toString_int a0, title = ''Learn Angular 18'',
          description = ''Study the new features and improvements in Angular 18'',
          completed = False, createdAt = a1, updatedAt = a2\<rparr>,
         \<lparr>id_task = ''task_2_'' @ toString_int b0, title = ''Build Task Tracker'',
          description = ''Create a simple task management application'',
          completed = False, createdAt = b1, updatedAt = b2\<rparr>,
         \<lparr>id_task = ''task_3_'' @ toString_int c0, title = ''Write Unit Tests'',
          description = ''Add comprehensive test coverage for all components'',
          completed = False, createdAt = c1, updatedAt = c2\<rparr>]
      in \<lparr>tasks = ts, tasksSubject = ts, nextId = 4\<rparr>)"
  by (simp add: new_TaskService_def initializeSampleData_def sampleTasks_def
      createTask_valid trim_sampleTasks toString_nat_digit digit_chars Let_def)

lemma toString_int_1000: "toString_int 1000 = ''1000''"
  by (simp add: toString_int_def toString_nat.simps [of 1000] toString_nat.simps [of 100]
      toString_nat.simps [of 10] toString_nat_digit digit_chars)

lemma demo_service_eq:
  "demo_service =
     \<lparr>tasks =
        [\<lparr>id_task = ''task_1_1000'', title = ''Learn Angular 18'',
          description = ''Study the new features and improvements in Angular 18'',
          completed = False, createdAt = 1000, updatedAt = 1000\<rparr>,
         \<lparr>id_task = ''task_2_1000'', title = ''Build Task Tracker'',
          description = ''Create a simple task management application'',
          completed = False, createdAt = 1000, updatedAt = 1000\<rparr>,
         \<lparr>id_task = ''task_3_1000'', title = ''Write Unit Tests'',
          description = ''Add comprehensive test coverage for all components'',
          completed = False, createdAt = 1000, updatedAt = 1000\<rparr>],
      tasksSubject =
        [\<lparr>id_task = ''task_1_1000'', title = ''Learn Angular 18'',
          description = ''Study the new features and improvements in Angular 18'',
          completed = False, createdAt = 1000, updatedAt = 1000\<rparr>,
         \<lparr>id_task = ''task_2_1000'', title = ''Build Task Tracker'',
          description = ''Create a simple task management application'',
          completed = False, createdAt = 1000, updatedAt = 1000\<rparr>,
         \<lparr>id_task = ''task_3_1000'', title = ''Write Unit Tests'',
          description = ''Add comprehensive test coverage for all components'',
          completed = False, createdAt = 1000, updatedAt = 1000\<rparr>],
      nextId = 4\<rparr>"
  by (simp add: demo_service_def new_TaskService_eq toString_int_1000 Let_def)

lemma demo_service_first:
  "find (\<lambda>t. id_task t = ''task_1_1000'') (tasks demo_service) =
     Some \<lparr>id_task = ''task_1_1000'', title = ''Learn Angular 18'',
           description = ''Study the new features and improvements in Angular 18'',
           completed = False, createdAt = 1000, updatedAt = 1000\<rparr>"
  by (simp add: demo_service_eq)

lemma demo_service_findIndex:
  "findIndex (\<lambda>t. id_task t = ''task_1_1000'') (tasks demo_service) = Some 0"
  by (simp add: demo_service_eq)

text \<open>The constructor is itself a sequence of three \<open>createTask\<close> calls on the empty store.\<close>

lemma new_TaskService_run:
  "new_TaskService (a0, a1, a2) (b0, b1, b2) (c0, c1, c2) =
     run \<lparr>tasks = [], tasksSubject = [], nextId = 1\<rparr>
       [Create (sampleTasks ! 0) a0 a1 a2, Create (sampleTasks ! 1) b0 b1 b2,
        Create (sampleTasks ! 2) c0 c1 c2]"
  by (simp add: new_TaskService_def initializeSampleData_def run_def sampleTasks_def)

lemma new_TaskService_ids_below: "ids_below (new_TaskService r1 r2 r3)"
proof -
  obtain a0 a1 a2 b0 b1 b2 c0 c1 c2 where
    r: "r1 = (a0, a1, a2)" "r2 = (b0, b1, b2)" "r3 = (c0, c1, c2)"
    by (metis prod_cases3)
  have "ids_below \<lparr>tasks = [], tasksSubject = [], nextId = 1\<rparr>"
    by (simp add: ids_below_def)
  then show ?thesis
    unfolding r new_TaskService_run by (rule run_ids_below)
qed

lemma new_TaskService_distinct: "distinct (map id_task (tasks (new_TaskService r1 r2 r3)))"
proof -
  obtain a0 a1 a2 b0 b1 b2 c0 c1 c2 where
    r: "r1 = (a0, a1, a2)" "r2 = (b0, b1, b2)" "r3 = (c0, c1, c2)"
    by (metis prod_cases3)
  show ?thesis
    unfolding r by (simp add: new_TaskService_eq Let_def)
qed

lemma generateId_twice:
  "snd (generateId s now) \<noteq> snd (generateId (fst (generateId s now)) now')"
proof
  assume "snd (generateId s now) = snd (generateId (fst (generateId s now)) now')"
  then have "''task_'' @ toString_nat (nextId s) @ ''_'' @ toString_int now =
    ''task_'' @ toString_nat (Suc (nextId s)) @ ''_'' @ toString_int now'"
    by (simp add: generateId_def)
  then have "nextId s = Suc (nextId s)"
    by (rule id_counter_inj)
  then show False by simp
qed

lemma createTask_fresh_id:
  assumes "ids_below s0" and "trim (title_c taskData) \<noteq> []"
    and "createTask (run s0 cs) taskData now0 now1 now2 = (s', Inr task)"
  shows "\<forall>k \<le> length cs. id_task task \<notin> id_task ` set (tasks (run s0 (take k cs)))"
    and "id_task task \<notin> set (created s0 cs)"
proof -
  let ?s = "run s0 cs"
  from assms(2,3) have idt: "id_task task =
    ''task_'' @ toString_nat (nextId ?s) @ ''_'' @ toString_int now0"
    by (auto simp: createTask_valid Let_def)
  then have nb: "\<not> issued_below (nextId ?s) (id_task task)"
    by (simp only: generated_not_below) simp
  show "\<forall>k \<le> length cs. id_task task \<notin> id_task ` set (tasks (run s0 (take k cs)))"
  proof (intro allI impI)
    fix k assume "k \<le> length cs"
    have "run s0 cs = run (run s0 (take k cs)) (drop k cs)"
      by (simp add: run_append [symmetric])
    then have le: "nextId (run s0 (take k cs)) \<le> nextId ?s"
      using run_nextId [of "run s0 (take k cs)" "drop k cs"] by simp
    have "ids_below (run s0 (take k cs))"
      using assms(1) by (rule run_ids_below)
    then have "\<forall>t \<in> set (tasks (run s0 (take k cs))). issued_below (nextId ?s) (id_task t)"
      unfolding ids_below_def using issued_below_mono [OF _ le] by blast
    with nb show "id_task task \<notin> id_task ` set (tasks (run s0 (take k cs)))"
      by auto
  qed
  show "id_task task \<notin> set (created s0 cs)"
    using created_range [of "id_task task" s0 cs] nb by blast
qed

lemma toString_int_2000: "toString_int 2000 = ''2000''"
  by (simp add: toString_int_def toString_nat.simps [of 2000] toString_nat.simps [of 200]
      toString_nat.simps [of 20] toString_nat_digit digit_chars)

lemma digit_4: "digit 4 = CHR ''4''"
  by (simp add: digit_chars)

lemma trim_Test_Task: "trim ''Test Task'' = ''Test Task''"
  "trim ''Test Description'' = ''Test Description''"
  "trim ''  Test Task  '' = ''Test Task''"
  "trim ''  Test Description  '' = ''Test Description''"
  by (simp_all add: trim_def trimStart_def trimEnd_def isWhiteSpace_def)

lemma trim_A_B: "trim ''A'' = ''A''" "trim ''B'' = ''B''" "trim '''' = ''''"
  by (simp_all add: trim_def trimStart_def trimEnd_def isWhiteSpace_def)

lemma digit_5: "digit 5 = CHR ''5''"
  by (simp add: digit_chars)

lemma demo_created:
  "created demo_service
     [Create \<lparr>title_c = ''A'', description_c = ''''\<rparr> 1000 1000 1000,
      Delete ''task_4_1000'',
      Create \<lparr>title_c = ''B'', description_c = ''''\<rparr> 1000 1000 1000] =
   [''task_4_1000'', ''task_5_1000'']"
proof -
  let ?a = "\<lparr>title_c = ''A'', description_c = ''''\<rparr>"
  let ?b = "\<lparr>title_c = ''B'', description_c = ''''\<rparr>"
  have n: "nextId demo_service = 4"
    by (simp add: demo_service_eq)
  have a: "trim (title_c ?a) \<noteq> []" and b: "trim (title_c ?b) \<noteq> []"
    by (simp_all add: trim_A_B)
  have 1: "returned_id demo_service (Create ?a 1000 1000 1000) = [''task_4_1000'']"
    by (simp add: createTask_valid [OF a] Let_def n toString_nat_digit digit_4 toString_int_1000)
  let ?s1 = "perform demo_service (Create ?a 1000 1000 1000)"
  have n1: "nextId ?s1 = 5"
    unfolding perform.simps createTask_nextId by (simp add: n trim_A_B)
  let ?s2 = "perform ?s1 (Delete ''task_4_1000'')"
  have n2: "nextId ?s2 = 5"
    by (simp only: perform.simps(3) deleteTask_nextId n1)
  have 2: "returned_id ?s2 (Create ?b 1000 1000 1000) = [''task_5_1000'']"
    unfolding returned_id.simps createTask_valid [OF b] Let_def n2
    by (simp add: toString_nat_digit digit_5 toString_int_1000)
  from 1 2 show ?thesis
    by (simp only: created.simps returned_id.simps(3) append.simps append_Nil2)
qed

text \<open>
  A valid request on a store that was constructed and then used in any way: the creation
  succeeds, the task it returns is appended to the collection, its title and description
  are the request's trimmed of leading and trailing whitespace, \<open>completed\<close> is false,
  and its id is none of the ids that were in the collection at any earlier moment, nor
  an id that an earlier creation returned.
\<close>

lemma createTask_valid_request:
  assumes "trim (title_c taskData) \<noteq> []"
  shows "\<exists>task s'.
      createTask (run (new_TaskService r1 r2 r3) cs) taskData now0 now1 now2 = (s', Inr task)
    \<and> tasks s' = tasks (run (new_TaskService r1 r2 r3) cs) @ [task]
    \<and> title task = trim (title_c taskData) \<and> trimmed_of (title_c taskData) (title task)
    \<and> description task = trim (description_c taskData)
    \<and> trimmed_of (description_c taskData) (description task)
    \<and> \<not> completed task
    \<and> (\<forall>k \<le> length cs.
          id_task task \<notin> id_task ` set (tasks (run (new_TaskService r1 r2 r3) (take k cs))))
    \<and> id_task task \<notin> set (created (new_TaskService r1 r2 r3) cs)"
proof -
  let ?s = "run (new_TaskService r1 r2 r3) cs"
  obtain task s' where c: "createTask ?s taskData now0 now1 now2 = (s', Inr task)"
    and t: "task = \<lparr>id_task = ''task_'' @ toString_nat (nextId ?s) @ ''_'' @ toString_int now0,
                 title = trim (title_c taskData),
                 description = trim (description_c taskData),
                 completed = False, createdAt = now1, updatedAt = now2\<rparr>"
    and s': "tasks s' = tasks ?s @ [task]"
    using assms by (simp add: createTask_valid Let_def)
  note f = createTask_fresh_id [OF new_TaskService_ids_below assms c]
  from t have "title task = trim (title_c taskData)"
    "description task = trim (description_c taskData)" "\<not> completed task"
    by simp_all
  with c s' f show ?thesis
    using trim_trimmed_of by auto
qed

lemma createTask_valid_request_example:
  "trim (title_c \<lparr>title_c = ''  Test Task  '', description_c = ''  Test Description  ''\<rparr>) \<noteq> []
   \<and> (\<exists>task s'.
        createTask (run demo_service [Delete ''task_1_1000''])
          \<lparr>title_c = ''  Test Task  '', description_c = ''  Test Description  ''\<rparr>
          2000 2000 2000 = (s', Inr task)
      \<and> title task = ''Test Task'' \<and> description task = ''Test Description''
      \<and> \<not> completed task
      \<and> id_task task \<notin> id_task ` set (tasks demo_service))"
proof -
  let ?r = "\<lparr>title_c = ''  Test Task  '', description_c = ''  Test Description  ''\<rparr>"
  have t: "trim (title_c ?r) \<noteq> []"
    by (simp add: trim_Test_Task)
  from createTask_valid_request [OF t, of "(1000, 1000, 1000)" "(1000, 1000, 1000)"
      "(1000, 1000, 1000)" "[Delete ''task_1_1000'']" 2000 2000 2000]
  obtain task s' where
    1: "createTask (run demo_service [Delete ''task_1_1000'']) ?r 2000 2000 2000 = (s', Inr task)"
      "title task = trim (title_c ?r)" "description task = trim (description_c ?r)"
      "\<not> completed task"
    and 2: "\<forall>k \<le> length [Delete ''task_1_1000''].
          id_task task \<notin> id_task ` set (tasks (run demo_service (take k [Delete ''task_1_1000''])))"
    unfolding demo_service_def by blast
  from 2 have "id_task task \<notin> id_task ` set (tasks (run demo_service (take 0 [Delete ''task_1_1000''])))"
    by blast
  then have "id_task task \<notin> id_task ` set (tasks demo_service)"
    by (simp add: run_def)
  with 1 t show ?thesis
    by (simp add: trim_Test_Task)
qed

section \<open>Timestamps under a clock that does not run backwards\<close>

text \<open>
  When the clock readings given to a sequence of calls never decrease, no task carries a
  timestamp later than the last reading, and no task was updated before it was created.
\<close>

lemma stamped_upto_mono: "stamped_upto T s \<Longrightarrow> T \<le> T' \<Longrightarrow> stamped_upto T' s"
  unfolding stamped_upto_def by fastforce

lemma updateTask_stamped:
  assumes "stamped_upto T s" and "T \<le> now"
  shows "stamped_upto now (fst (updateTask s ident updates now))"
proof (cases rule: updateTask_cases [of s ident updates now])
  case (failed e)
  with assms show ?thesis
    by (simp add: stamped_upto_mono)
next
  case (updated i new)
  from assms(1) updated(1) have "createdAt (tasks s ! i) \<le> T"
    unfolding stamped_upto_def by (meson nth_mem order_trans)
  with updated(4,5) assms(2) have n: "createdAt new \<le> updatedAt new \<and> updatedAt new \<le> now"
    by simp
  have "set ((tasks s)[i := new]) \<subseteq> insert new (set (tasks s))"
    by (rule set_update_subset_insert)
  with n stamped_upto_mono [OF assms] show ?thesis
    unfolding stamped_upto_def updated(3) by auto
qed

lemma perform_stamped:
  assumes "stamped_upto T s" and "sorted (T # readings_of c)"
  shows "stamped_upto (last (T # readings_of c)) (perform s c)"
proof (cases c)
  case (Create taskData now0 now1 now2)
  with assms(2) have le: "T \<le> now2" "now1 \<le> now2"
    by auto
  show ?thesis
  proof (cases "trim (title_c taskData) = []")
    case True
    with Create le stamped_upto_mono [OF assms(1) le(1)] show ?thesis
      by (simp add: createTask_blank)
  next
    case False
    with Create le stamped_upto_mono [OF assms(1) le(1)] show ?thesis
      by (simp add: createTask_valid Let_def stamped_upto_def)
  qed
next
  case (Update ident updates now)
  with assms show ?thesis
    by (simp add: updateTask_stamped)
next
  case (Delete ident)
  with assms(1) show ?thesis
    using deleteTask_ids [of s ident] unfolding stamped_upto_def by auto
next
  case (Toggle ident now)
  obtain u where "toggleTaskCompletion s ident now = updateTask s ident u now"
    using toggleTaskCompletion_eq_update by blast
  with Toggle assms show ?thesis
    by (simp add: updateTask_stamped)
qed

lemma run_stamped:
  assumes "stamped_upto T s" and "sorted (T # concat (map readings_of cs))"
  shows "stamped_upto (last (T # concat (map readings_of cs))) (run s cs)"
  using assms
proof (induction cs arbitrary: s T)
  case Nil
  then show ?case by (simp add: run_def)
next
  case (Cons c cs)
  let ?T = "last (T # readings_of c)"
  from Cons.prems(2) have 1: "sorted (T # readings_of c)"
    by (simp add: sorted_append)
  from Cons.prems(2) have 2: "sorted (?T # concat (map readings_of cs))"
    by (cases "readings_of c = []") (auto simp: sorted_append)
  have 3: "last (?T # concat (map readings_of cs)) =
      last (T # concat (map readings_of (c # cs)))"
    by (cases "readings_of c = []") auto
  from Cons.IH [OF perform_stamped [OF Cons.prems(1) 1] 2] show ?case
    by (simp only: run_Cons 3)
qed

lemma constructed_run_stamped:
  assumes "sorted ([a0, a1, a2, b0, b1, b2, c0, c1, c2] @ concat (map readings_of cs))"
  shows "stamped_upto (last ([a0, a1, a2, b0, b1, b2, c0, c1, c2] @ concat (map readings_of cs)))
           (run (new_TaskService (a0, a1, a2) (b0, b1, b2) (c0, c1, c2)) cs)"
proof -
  let ?init = "[Create (sampleTasks ! 0) a0 a1 a2, Create (sampleTasks ! 1) b0 b1 b2,
        Create (sampleTasks ! 2) c0 c1 c2]"
  let ?fresh = "\<lparr>tasks = [], tasksSubject = [], nextId = 1\<rparr>"
  have 1: "run (new_TaskService (a0, a1, a2) (b0, b1, b2) (c0, c1, c2)) cs =
      run ?fresh (?init @ cs)"
    by (simp only: new_TaskService_run run_append)
  have 2: "concat (map readings_of (?init @ cs)) =
      [a0, a1, a2, b0, b1, b2, c0, c1, c2] @ concat (map readings_of cs)"
    by simp
  have 3: "stamped_upto a0 ?fresh"
    by (simp add: stamped_upto_def)
  from assms have 4: "sorted (a0 # concat (map readings_of (?init @ cs)))"
    unfolding 2 by simp
  from run_stamped [OF 3 4] show ?thesis
    unfolding 1 2 by simp
qed

section \<open>Facts about the orchestrator\<close>

text \<open>
  The effect of \<open>onDeleteTask\<close>, of the delivery of its result, of the timers and of
  \<open>ngOnDestroy\<close> on the fields of the component and on the two queues.
\<close>

lemma deleteTask_present:
  assumes "ident \<in> id_task ` set (tasks s)"
  shows "\<exists>s'. deleteTask s ident = (s', Inr True)"
proof -
  from assms obtain i where "findIndex (\<lambda>t. id_task t = ident) (tasks s) = Some i"
    using findIndex_None_iff [of "\<lambda>t. id_task t = ident" "tasks s"] by fastforce
  then show ?thesis
    by (simp add: deleteTask_def Let_def)
qed

lemma foldl_timeout_callback:
  "foldl (\<lambda>w d. timeout_callback w) w ds = (if ds = [] then w else timeout_callback w)"
proof (induction ds arbitrary: w)
  case Nil
  then show ?case by simp
next
  case (Cons d ds)
  have "timeout_callback (timeout_callback w) = timeout_callback w"
    by (simp add: timeout_callback_def)
  with Cons show ?case by simp
qed

lemma run_timeouts_fields:
  "taskService (run_timeouts now w) = taskService w"
  "subscriptions (run_timeouts now w) = subscriptions w"
  "timeouts (run_timeouts now w) = filter (\<lambda>d. now < d) (timeouts w)"
  "errorMessage (component (run_timeouts now w)) = errorMessage (component w)"
  "editingTask (component (run_timeouts now w)) = editingTask (component w)"
  "successMessage (component (run_timeouts now w)) =
     (if \<exists>d \<in> set (timeouts w). d \<le> now then [] else successMessage (component w))"
  unfolding run_timeouts_def foldl_timeout_callback
  by (auto simp: timeout_callback_def filter_empty_conv)

lemma next_onDeleteTask_fields:
  "successMessage (component (next_onDeleteTask now taskId w)) = ''Task deleted successfully!''"
  "errorMessage (component (next_onDeleteTask now taskId w)) = errorMessage (component w)"
  "editingTask (component (next_onDeleteTask now taskId w)) =
     (if map_option id_task (editingTask (component w)) = Some taskId then None
      else editingTask (component w))"
  "timeouts (next_onDeleteTask now taskId w) = timeouts w @ [now + 3000]"
  "taskService (next_onDeleteTask now taskId w) = taskService w"
  by (auto simp: next_onDeleteTask_def showSuccess_def Let_def)

lemma deliver_single:
  "subscriptions w = [(d, taskId)] \<Longrightarrow> d \<le> now \<Longrightarrow>
   deliver now w = next_onDeleteTask now taskId (w\<lparr>subscriptions := []\<rparr>)"
  by (simp add: deliver_def)

lemma onDeleteTask_present:
  assumes "deleteTask (taskService w) taskId = (s', Inr ok)"
  shows "onDeleteTask now taskId w =
           w\<lparr>taskService := s', component := clearMessages (component w),
             subscriptions := subscriptions w @ [(now + 100, taskId)]\<rparr>"
  using assms by (simp add: onDeleteTask_def Let_def)

lemma onDeleteTask_absent:
  assumes "taskId \<notin> id_task ` set (tasks (taskService w))"
  shows "onDeleteTask now taskId w =
           w\<lparr>component := (component w)
               \<lparr>errorMessage := ''Task with ID '' @ taskId @ '' not found'',
                successMessage := []\<rparr>\<rparr>"
  using assms
  by (simp add: onDeleteTask_def deleteTask_not_found Let_def handleError_def clearMessages_def)

lemma demo_world_fields:
  "taskService demo_world = demo_service"
  "subscriptions demo_world = []"
  "timeouts demo_world = []"
  "successMessage (component demo_world) = []"
  "errorMessage (component demo_world) = []"
  "editingTask (component demo_world) =
     Some \<lparr>id_task = ''task_1_1000'', title = ''Learn Angular 18'',
           description = ''Study the new features and improvements in Angular 18'',
           completed = False, createdAt = 1000, updatedAt = 1000\<rparr>"
  by (simp_all add: demo_world_def onEditTask_def clearMessages_def new_AppComponent_def
      demo_service_eq)

lemma demo_service_ids:
  "id_task ` set (tasks demo_service) = {''task_1_1000'', ''task_2_1000'', ''task_3_1000''}"
  by (simp add: demo_service_eq)

lemma next_onDeleteTask_subscriptions:
  "subscriptions (next_onDeleteTask now taskId w) = subscriptions w"
  by (simp add: next_onDeleteTask_def showSuccess_def Let_def)

lemma turn_onDeleteTask:
  assumes "subscriptions w = []" and "taskId \<in> id_task ` set (tasks (taskService w))"
  shows "turn (now + 100) (onDeleteTask now taskId w) =
     next_onDeleteTask (now + 100) taskId
       ((run_timeouts (now + 100)
          (w\<lparr>taskService := fst (deleteTask (taskService w) taskId),
             component := clearMessages (component w),
             subscriptions := [(now + 100, taskId)]\<rparr>))\<lparr>subscriptions := []\<rparr>)"
proof -
  from assms(2) obtain s' where d: "deleteTask (taskService w) taskId = (s', Inr True)"
    using deleteTask_present by blast
  then have 1: "onDeleteTask now taskId w =
     w\<lparr>taskService := fst (deleteTask (taskService w) taskId),
       component := clearMessages (component w),
       subscriptions := [(now + 100, taskId)]\<rparr>" (is "_ = ?w1")
    using assms(1) by (simp add: onDeleteTask_present)
  have "subscriptions (run_timeouts (now + 100) ?w1) = [(now + 100, taskId)]"
    by (simp add: run_timeouts_fields)
  then show ?thesis
    unfolding 1 turn_def by (rule deliver_single) simp
qed

lemma delete_then_turn:
  assumes "subscriptions w = []" and "taskId \<in> id_task ` set (tasks (taskService w))"
  shows "successMessage (component (turn (now + 100) (onDeleteTask now taskId w))) =
           ''Task deleted successfully!''"
    and "timeouts (turn (now + 100) (onDeleteTask now taskId w)) =
           filter (\<lambda>d. now + 100 < d) (timeouts w) @ [now + 3100]"
    and "subscriptions (turn (now + 100) (onDeleteTask now taskId w)) = []"
    and "taskService (turn (now + 100) (onDeleteTask now taskId w)) =
           fst (deleteTask (taskService w) taskId)"
  unfolding turn_onDeleteTask [OF assms]
  by (simp_all add: next_onDeleteTask_fields next_onDeleteTask_subscriptions
      run_timeouts_fields)

lemma turn_without_subscriptions:
  "subscriptions w = [] \<Longrightarrow> turn now w = run_timeouts now w"
proof -
  assume "subscriptions w = []"
  then have "subscriptions (run_timeouts now w) = []"
    by (simp add: run_timeouts_fields)
  then have "deliver now (run_timeouts now w) =
      (run_timeouts now w)\<lparr>subscriptions := subscriptions (run_timeouts now w)\<rparr>"
    by (simp add: deliver_def)
  then show ?thesis
    by (simp add: turn_def)
qed

lemma ngOnDestroy_fields:
  "component (ngOnDestroy w) = component w" "timeouts (ngOnDestroy w) = timeouts w"
  "subscriptions (ngOnDestroy w) = []" "taskService (ngOnDestroy w) = taskService w"
  by (simp_all add: ngOnDestroy_def)

lemma timeout_after_ngOnDestroy:
  assumes "d \<in> set (timeouts w)" and "d \<le> now"
  shows "successMessage (component (turn now (ngOnDestroy w))) = []"
  using assms
  by (auto simp: turn_without_subscriptions ngOnDestroy_fields run_timeouts_fields)

lemma demo_world_present:
  "''task_2_1000'' \<in> id_task ` set (tasks (taskService demo_world))"
  by (simp add: demo_world_fields demo_service_ids)

lemma ngOnDestroy_cancels_deliveries:
  assumes "\<forall>d \<in> set (timeouts w). now < d"
  shows "component (turn now (ngOnDestroy w)) = component w"
proof -
  have "filter (\<lambda>d. d \<le> now) (timeouts w) = []"
    using assms by (auto simp: filter_empty_conv)
  then show ?thesis
    by (simp add: turn_without_subscriptions ngOnDestroy_fields run_timeouts_def)
qed

lemma demo_shown_fields:
  "successMessage (component demo_shown) = ''Task deleted successfully!''"
  "timeouts demo_shown = [3100]"
  "subscriptions demo_shown = []"
  "taskService demo_shown = fst (deleteTask demo_service ''task_2_1000'')"
  unfolding demo_shown_def
  using delete_then_turn [OF demo_world_fields(2) demo_world_present, of 0]
  by (simp_all add: demo_world_fields)

lemma demo_shown_present:
  "''task_3_1000'' \<in> id_task ` set (tasks (taskService demo_shown))"
proof -
  have "findIndex (\<lambda>t. id_task t = ''task_2_1000'') (tasks demo_service) = Some 1"
    by (simp add: demo_service_eq)
  then have "tasks (fst (deleteTask demo_service ''task_2_1000'')) =
      splice1 1 (tasks demo_service)"
    by (simp add: deleteTask_def Let_def)
  then show ?thesis
    by (simp add: demo_shown_fields splice1_def demo_service_eq)
qed

section \<open>The claims\<close>

subsection \<open>Rejected calls\<close>

text \<open>
  Claim C4. A \<open>createTask\<close> request whose title is the empty string or consists of
  whitespace only fails with the error \<open>Task title is required\<close> (the store's validation
  error), and the state of the store that results is the state before the call: the
  collection has the same size and the same contents.
\<close>

theorem createTask_blank_title_rejected:
  assumes "list_all isWhiteSpace (title_c taskData)"
  shows "createTask s taskData now0 now1 now2 = (s, Inl (Error ''Task title is required''))
       \<and> tasks (fst (createTask s taskData now0 now1 now2)) = tasks s
       \<and> length (tasks (fst (createTask s taskData now0 now1 now2))) = length (tasks s)"
proof -
  from assms have "trim (title_c taskData) = []"
    by (simp add: trim_Nil_iff list_all_iff)
  then show ?thesis
    by (simp add: createTask_blank)
qed

theorem createTask_blank_title_rejected_witness:
  "list_all isWhiteSpace ''   ''
   \<and> createTask demo_service \<lparr>title_c = ''   '', description_c = ''Test Description''\<rparr>
        2000 2000 2000 = (demo_service, Inl (Error ''Task title is required''))"
proof -
  have h: "list_all isWhiteSpace
    (title_c \<lparr>title_c = ''   '', description_c = ''Test Description''\<rparr>)"
    by (simp add: isWhiteSpace_def)
  from createTask_blank_title_rejected [OF h] h show ?thesis
    by simp
qed

text \<open>
  Claim C5. For an id that no task of the collection carries, \<open>updateTask\<close>,
  \<open>deleteTask\<close> and \<open>toggleTaskCompletion\<close> each fail with the error
  \<open>Task with ID <id> not found\<close> and leave the store as it was;
  \<open>toggleTaskCompletion\<close> fails exactly as \<open>updateTask\<close> does.
\<close>

theorem unknown_id_not_found:
  assumes "ident \<notin> id_task ` set (tasks s)"
  shows "updateTask s ident updates now =
           (s, Inl (Error (''Task with ID '' @ ident @ '' not found'')))
       \<and> deleteTask s ident = (s, Inl (Error (''Task with ID '' @ ident @ '' not found'')))
       \<and> toggleTaskCompletion s ident now =
           (s, Inl (Error (''Task with ID '' @ ident @ '' not found'')))
       \<and> toggleTaskCompletion s ident now = updateTask s ident updates now"
  using assms
  by (simp add: updateTask_not_found deleteTask_not_found toggleTaskCompletion_not_found)

theorem unknown_id_not_found_witness:
  "''invalid-id'' \<notin> id_task ` set (tasks demo_service)
   \<and> updateTask demo_service ''invalid-id''
        \<lparr>title_u = Some ''Updated Title'', description_u = None, completed_u = None\<rparr> 2000 =
        (demo_service, Inl (Error ''Task with ID invalid-id not found''))
   \<and> deleteTask demo_service ''invalid-id'' =
        (demo_service, Inl (Error ''Task with ID invalid-id not found''))
   \<and> toggleTaskCompletion demo_service ''invalid-id'' 2000 =
        (demo_service, Inl (Error ''Task with ID invalid-id not found''))"
proof -
  have h: "''invalid-id'' \<notin> id_task ` set (tasks demo_service)"
    by (simp add: demo_service_eq)
  from unknown_id_not_found [OF h] h show ?thesis
    by simp
qed

text \<open>
  Claim C10. In \<open>updateTask\<close> the existence check comes before the validation of the
  title: for an id that is not in the collection, a request that carries an empty or
  whitespace-only title fails with the not-found error, not with the validation error.
\<close>

theorem updateTask_not_found_before_validation:
  assumes "ident \<notin> id_task ` set (tasks s)"
    and "title_u updates = Some t" and "list_all isWhiteSpace t"
  shows "updateTask s ident updates now =
           (s, Inl (Error (''Task with ID '' @ ident @ '' not found'')))
       \<and> snd (updateTask s ident updates now) \<noteq> Inl (Error ''Task title cannot be empty'')"
  using assms(1) by (simp add: updateTask_not_found)

theorem updateTask_not_found_before_validation_witness:
  "''invalid-id'' \<notin> id_task ` set (tasks demo_service)
   \<and> list_all isWhiteSpace '' ''
   \<and> updateTask demo_service ''invalid-id''
        \<lparr>title_u = Some '' '', description_u = None, completed_u = None\<rparr> 2000 =
        (demo_service, Inl (Error ''Task with ID invalid-id not found''))"
proof -
  have h: "''invalid-id'' \<notin> id_task ` set (tasks demo_service)"
    by (simp add: demo_service_eq)
  have b: "list_all isWhiteSpace '' ''"
    by (simp add: isWhiteSpace_def)
  from updateTask_not_found_before_validation [OF h _ b, of _ 2000] h b show ?thesis
    by simp
qed

subsection \<open>Successful updates\<close>

text \<open>
  Claim C6. Take a store that was constructed and then used in any way, an id that is in
  its collection, and a request whose title is omitted or not blank after trimming. Then
  \<open>updateTask\<close> succeeds; the task it returns replaces the old one in the collection;
  every field that the request omits keeps its value, as do \<open>id\<close> and \<open>createdAt\<close>;
  and \<open>updatedAt\<close> is the clock reading of the call, which is greater than or equal to
  the old \<open>updatedAt\<close> whenever the clock readings of the whole history, this call's
  included, never decrease.
\<close>

theorem updateTask_succeeds:
  assumes "s = run (new_TaskService (a0, a1, a2) (b0, b1, b2) (c0, c1, c2)) cs"
    and "find (\<lambda>t. id_task t = ident) (tasks s) = Some old"
    and "title_u updates = None \<or> trim (the (title_u updates)) \<noteq> []"
  shows "\<exists>new s' i. updateTask s ident updates now = (s', Inr new)
      \<and> i < length (tasks s) \<and> tasks s ! i = old \<and> tasks s' = (tasks s)[i := new]
      \<and> find (\<lambda>t. id_task t = ident) (tasks s') = Some new
      \<and> id_task new = id_task old \<and> createdAt new = createdAt old
      \<and> (title_u updates = None \<longrightarrow> title new = title old)
      \<and> (description_u updates = None \<longrightarrow> description new = description old)
      \<and> (completed_u updates = None \<longrightarrow> completed new = completed old)
      \<and> updatedAt new = now
      \<and> (sorted ([a0, a1, a2, b0, b1, b2, c0, c1, c2] @ concat (map readings_of cs) @ [now])
           \<longrightarrow> updatedAt old \<le> updatedAt new)"
proof -
  define rs where "rs = [a0, a1, a2, b0, b1, b2, c0, c1, c2] @ concat (map readings_of cs)"
  have ne: "rs \<noteq> []"
    by (simp add: rs_def)
  have late: "updatedAt old \<le> now" if "sorted (rs @ [now])"
  proof -
    from that have 1: "sorted rs" and "\<forall>x \<in> set rs. x \<le> now"
      by (simp_all add: sorted_append)
    with ne have 2: "last rs \<le> now"
      by simp
    from constructed_run_stamped [of a0 a1 a2 b0 b1 b2 c0 c1 c2 cs] 1
    have "stamped_upto (last rs) s"
      by (simp only: assms(1) rs_def)
    moreover from assms(2) have "old \<in> set (tasks s)"
      by (auto simp: find_Some_iff)
    ultimately have "updatedAt old \<le> last rs"
      unfolding stamped_upto_def by blast
    with 2 show ?thesis by simp
  qed
  have eq: "[a0, a1, a2, b0, b1, b2, c0, c1, c2] @ concat (map readings_of cs) @ [now] =
      rs @ [now]"
    by (simp add: rs_def)
  from updateTask_fields [OF assms(2,3), of now] obtain new s' i where
    f: "updateTask s ident updates now = (s', Inr new)"
      "i < length (tasks s)" "tasks s ! i = old" "tasks s' = (tasks s)[i := new]"
      "find (\<lambda>t. id_task t = ident) (tasks s') = Some new"
      "id_task new = id_task old" "createdAt new = createdAt old"
      "title_u updates = None \<longrightarrow> title new = title old"
      "description_u updates = None \<longrightarrow> description new = description old"
      "completed_u updates = None \<longrightarrow> completed new = completed old"
      "updatedAt new = now"
    by (elim exE conjE) (rule that)
  from late f(11) have "sorted (rs @ [now]) \<longrightarrow> updatedAt old \<le> updatedAt new"
    by simp
  with f show ?thesis
    unfolding eq by (intro exI [of _ new] exI [of _ s'] exI [of _ i]) simp
qed

theorem updateTask_succeeds_witness:
  "demo_service =
     run (new_TaskService (1000, 1000, 1000) (1000, 1000, 1000) (1000, 1000, 1000)) []
   \<and> find (\<lambda>t. id_task t = ''task_1_1000'') (tasks demo_service) =
     Some \<lparr>id_task = ''task_1_1000'', title = ''Learn Angular 18'',
           description = ''Study the new features and improvements in Angular 18'',
           completed = False, createdAt = 1000, updatedAt = 1000\<rparr>
   \<and> trim ''Only Title Updated'' \<noteq> []
   \<and> sorted ([1000, 1000, 1000, 1000, 1000, 1000, 1000, 1000, 1000] @
        concat (map readings_of []) @ [2000 :: int])
   \<and> (\<exists>new s'. updateTask demo_service ''task_1_1000''
          \<lparr>title_u = Some ''Only Title Updated'', description_u = None, completed_u = None\<rparr>
          2000 = (s', Inr new)
        \<and> find (\<lambda>t. id_task t = ''task_1_1000'') (tasks s') = Some new
        \<and> id_task new = ''task_1_1000''
        \<and> description new = ''Study the new features and improvements in Angular 18''
        \<and> completed new = False \<and> createdAt new = 1000 \<and> updatedAt new = 2000
        \<and> (1000::int) \<le> updatedAt new)"
proof -
  let ?old = "\<lparr>id_task = ''task_1_1000'', title = ''Learn Angular 18'',
           description = ''Study the new features and improvements in Angular 18'',
           completed = False, createdAt = 1000, updatedAt = 1000\<rparr>"
  let ?u = "\<lparr>title_u = Some ''Only Title Updated'', description_u = None, completed_u = None\<rparr>"
  have r: "demo_service =
     run (new_TaskService (1000, 1000, 1000) (1000, 1000, 1000) (1000, 1000, 1000)) []"
    by (simp add: run_def demo_service_def)
  have t: "trim ''Only Title Updated'' \<noteq> []"
    by (simp add: trim_Nil_iff isWhiteSpace_def)
  then have v: "title_u ?u = None \<or> trim (the (title_u ?u)) \<noteq> []"
    by simp
  have c: "sorted ([1000, 1000, 1000, 1000, 1000, 1000, 1000, 1000, 1000] @
        concat (map readings_of []) @ [2000 :: int])"
    by simp
  from updateTask_succeeds [OF r demo_service_first v, of 2000] c obtain new s' where
    "updateTask demo_service ''task_1_1000'' ?u 2000 = (s', Inr new)"
    "find (\<lambda>t. id_task t = ''task_1_1000'') (tasks s') = Some new"
    "id_task new = ''task_1_1000''"
    "description new = ''Study the new features and improvements in Angular 18''"
    "completed new = False" "createdAt new = 1000" "updatedAt new = 2000"
    "1000 \<le> updatedAt new"
    by auto
  with demo_service_first t r c show ?thesis
    by blast
qed

text \<open>
  Claim C7. For an id that is in the collection, two successive calls of
  \<open>toggleTaskCompletion\<close> both succeed; the first negates \<open>completed\<close>, and after the
  second the task of that id has its original \<open>completed\<close>, \<open>title\<close>,
  \<open>description\<close> and \<open>createdAt\<close>.
\<close>

theorem toggle_twice_restores:
  assumes "find (\<lambda>t. id_task t = ident) (tasks s) = Some old"
  shows "\<exists>s1 t1 s2 t2.
        toggleTaskCompletion s ident now1 = (s1, Inr t1)
      \<and> toggleTaskCompletion s1 ident now2 = (s2, Inr t2)
      \<and> completed t1 = (\<not> completed old)
      \<and> find (\<lambda>t. id_task t = ident) (tasks s2) = Some t2
      \<and> completed t2 = completed old \<and> title t2 = title old
      \<and> description t2 = description old \<and> createdAt t2 = createdAt old
      \<and> id_task t2 = id_task old"
proof -
  let ?t1 = "old\<lparr>completed := \<not> completed old, updatedAt := now1\<rparr>"
  from toggleTaskCompletion_valid [OF assms, of now1] obtain s1 where
    1: "toggleTaskCompletion s ident now1 = (s1, Inr ?t1)"
       "find (\<lambda>t. id_task t = ident) (tasks s1) = Some ?t1"
    by blast
  let ?t2 = "?t1\<lparr>completed := \<not> completed ?t1, updatedAt := now2\<rparr>"
  from toggleTaskCompletion_valid [OF 1(2), of now2] obtain s2 where
    2: "toggleTaskCompletion s1 ident now2 = (s2, Inr ?t2)"
       "find (\<lambda>t. id_task t = ident) (tasks s2) = Some ?t2"
    by blast
  have "completed ?t1 = (\<not> completed old)" "completed ?t2 = completed old"
    "title ?t2 = title old" "description ?t2 = description old"
    "createdAt ?t2 = createdAt old" "id_task ?t2 = id_task old"
    by simp_all
  with 1 2 show ?thesis
    by blast
qed

theorem toggle_twice_restores_witness:
  "find (\<lambda>t. id_task t = ''task_1_1000'') (tasks demo_service) =
     Some \<lparr>id_task = ''task_1_1000'', title = ''Learn Angular 18'',
           description = ''Study the new features and improvements in Angular 18'',
           completed = False, createdAt = 1000, updatedAt = 1000\<rparr>
   \<and> (\<exists>s1 t1 s2 t2.
        toggleTaskCompletion demo_service ''task_1_1000'' 2000 = (s1, Inr t1)
      \<and> toggleTaskCompletion s1 ''task_1_1000'' 3000 = (s2, Inr t2)
      \<and> completed t1 = True
      \<and> find (\<lambda>t. id_task t = ''task_1_1000'') (tasks s2) = Some t2
      \<and> completed t2 = False \<and> title t2 = ''Learn Angular 18''
      \<and> description t2 = ''Study the new features and improvements in Angular 18''
      \<and> createdAt t2 = 1000)"
proof -
  from toggle_twice_restores [OF demo_service_first, of 2000 3000] obtain s1 t1 s2 t2 where
    "toggleTaskCompletion demo_service ''task_1_1000'' 2000 = (s1, Inr t1)"
    "toggleTaskCompletion s1 ''task_1_1000'' 3000 = (s2, Inr t2)"
    "completed t1 = True"
    "find (\<lambda>t. id_task t = ''task_1_1000'') (tasks s2) = Some t2"
    "completed t2 = False" "title t2 = ''Learn Angular 18''"
    "description t2 = ''Study the new features and improvements in Angular 18''"
    "createdAt t2 = 1000"
    by auto
  with demo_service_first show ?thesis
    by blast
qed

text \<open>
  Claim C1 says that \<open>updateTask\<close> with an explicitly empty \<open>description\<close> clears the
  description. The code evaluates \<open>updates.description?.trim() || existingTask.description\<close>,
  and the empty string is falsy: on the first sample task the call succeeds and the task
  that is returned and stored still has the old description.
\<close>

theorem updateTask_empty_description_ignored:
  "snd (updateTask demo_service ''task_1_1000''
         \<lparr>title_u = None, description_u = Some '''', completed_u = None\<rparr> 2000) =
     Inr \<lparr>id_task = ''task_1_1000'', title = ''Learn Angular 18'',
          description = ''Study the new features and improvements in Angular 18'',
          completed = False, createdAt = 1000, updatedAt = 2000\<rparr>"
proof -
  have "tasks demo_service ! 0 =
     \<lparr>id_task = ''task_1_1000'', title = ''Learn Angular 18'',
      description = ''Study the new features and improvements in Angular 18'',
      completed = False, createdAt = 1000, updatedAt = 1000\<rparr>"
    by (simp add: demo_service_eq)
  note step = updateTask_valid [OF demo_service_findIndex _ this]
  have "trim '''' = []"
    by (simp add: trim_Nil_iff)
  then show ?thesis
    by (simp add: step trim_or_def Let_def)
qed

subsection \<open>Creation and identifiers\<close>

text \<open>
  Claim C3 says that the task returned for a valid request has \<open>createdAt\<close> equal to
  \<open>updatedAt\<close>. \<open>createTask\<close> evaluates \<open>new Date()\<close> once for \<open>createdAt\<close> and once
  more for \<open>updatedAt\<close>, so when the clock advances between the two expressions the
  fields of the returned task differ: here the creation succeeds on the constructed
  store, with \<open>createdAt\<close> 2000 and \<open>updatedAt\<close> 2001. (What else the claim says holds;
  see \<open>createTask_valid_request\<close>.)
\<close>

theorem createTask_timestamps_differ:
  "trim (title_c \<lparr>title_c = ''Test Task'', description_c = ''Test Description''\<rparr>) \<noteq> []
   \<and> snd (createTask demo_service
            \<lparr>title_c = ''Test Task'', description_c = ''Test Description''\<rparr> 2000 2000 2001) =
       Inr \<lparr>id_task = ''task_4_2000'', title = ''Test Task'',
            description = ''Test Description'', completed = False,
            createdAt = 2000, updatedAt = 2001\<rparr>
   \<and> createdAt \<lparr>id_task = ''task_4_2000'', title = ''Test Task'',
            description = ''Test Description'', completed = False,
            createdAt = 2000, updatedAt = 2001\<rparr>
     \<noteq> updatedAt \<lparr>id_task = ''task_4_2000'', title = ''Test Task'',
            description = ''Test Description'', completed = False,
            createdAt = 2000, updatedAt = 2001\<rparr>"
proof -
  have n: "nextId demo_service = 4"
    by (simp add: demo_service_eq)
  have t: "trim (title_c \<lparr>title_c = ''Test Task'', description_c = ''Test Description''\<rparr>) \<noteq> []"
    by (simp add: trim_Test_Task)
  show ?thesis
    by (simp add: createTask_valid [OF t] Let_def n trim_Test_Task toString_nat_digit digit_4
        toString_int_2000)
qed

text \<open>
  Claim C8. Over the lifetime of a store, the ids of the sample tasks and the ids that
  the successful \<open>createTask\<close> calls return are pairwise distinct, whatever calls
  (deletions included) come in between and whatever the clock readings are; in
  particular two successive \<open>generateId\<close> calls with the same clock reading return
  different ids.
\<close>

theorem ids_never_reused:
  "distinct (map id_task (tasks (new_TaskService r1 r2 r3))
            @ created (new_TaskService r1 r2 r3) cs)
   \<and> snd (generateId s now) \<noteq> snd (generateId (fst (generateId s now)) now)"
proof -
  have "set (map id_task (tasks (new_TaskService r1 r2 r3)))
        \<inter> set (created (new_TaskService r1 r2 r3) cs) = {}"
    using created_fresh [OF new_TaskService_ids_below, of r1 r2 r3 cs] by simp
  then have "distinct (map id_task (tasks (new_TaskService r1 r2 r3))
            @ created (new_TaskService r1 r2 r3) cs)"
    using new_TaskService_distinct [of r1 r2 r3] created_distinct
    by (simp only: distinct_append)
  then show ?thesis
    using generateId_twice by blast
qed

theorem ids_never_reused_witness:
  "created demo_service
     [Create \<lparr>title_c = ''A'', description_c = ''''\<rparr> 1000 1000 1000,
      Delete ''task_4_1000'',
      Create \<lparr>title_c = ''B'', description_c = ''''\<rparr> 1000 1000 1000] =
     [''task_4_1000'', ''task_5_1000'']
   \<and> distinct (map id_task (tasks demo_service)
            @ created demo_service
                [Create \<lparr>title_c = ''A'', description_c = ''''\<rparr> 1000 1000 1000,
                 Delete ''task_4_1000'',
                 Create \<lparr>title_c = ''B'', description_c = ''''\<rparr> 1000 1000 1000])
   \<and> snd (generateId demo_service 1000) \<noteq> snd (generateId (fst (generateId demo_service 1000)) 1000)"
proof -
  have "distinct (map id_task (tasks demo_service)
            @ created demo_service
                [Create \<lparr>title_c = ''A'', description_c = ''''\<rparr> 1000 1000 1000,
                 Delete ''task_4_1000'',
                 Create \<lparr>title_c = ''B'', description_c = ''''\<rparr> 1000 1000 1000])
   \<and> snd (generateId demo_service 1000) \<noteq> snd (generateId (fst (generateId demo_service 1000)) 1000)"
    unfolding demo_service_def by (rule ids_never_reused)
  with demo_created show ?thesis
    by (rule conjI)
qed

subsection \<open>The orchestrator\<close>

text \<open>
  Claim C9. When the id is in the store, \<open>onDeleteTask\<close> lets the store delete the
  task, clears the messages and awaits the result, due 100 ms later. The \<open>next\<close>
  callback, in whatever state it runs, shows the success message
  \<open>Task deleted successfully!\<close>, leaves the error message alone, and clears the editing
  reference if the task being edited has the deleted id and leaves it as it is
  otherwise. Hence, when no other deletion is in flight, after the turn of the event loop
  that delivers the result the success message is shown, there is no error message, and
  the editing reference is cleared exactly when it had the deleted id. When the id is not
  in the store, \<open>onDeleteTask\<close> at once shows the store's error message instead; there
  is no success message, and the editing reference, the subscriptions, the timers and
  the store are untouched.
\<close>

theorem onDeleteTask_outcome:
  "(taskId \<in> id_task ` set (tasks (taskService w)) \<longrightarrow>
      onDeleteTask now taskId w =
        w\<lparr>taskService := fst (deleteTask (taskService w) taskId),
          component := clearMessages (component w),
          subscriptions := subscriptions w @ [(now + 100, taskId)]\<rparr>)
   \<and> successMessage (component (next_onDeleteTask t taskId v)) = ''Task deleted successfully!''
   \<and> errorMessage (component (next_onDeleteTask t taskId v)) = errorMessage (component v)
   \<and> editingTask (component (next_onDeleteTask t taskId v)) =
        (if map_option id_task (editingTask (component v)) = Some taskId then None
         else editingTask (component v))
   \<and> (taskId \<in> id_task ` set (tasks (taskService w)) \<and> subscriptions w = [] \<longrightarrow>
        successMessage (component (turn (now + 100) (onDeleteTask now taskId w))) =
          ''Task deleted successfully!''
      \<and> errorMessage (component (turn (now + 100) (onDeleteTask now taskId w))) = []
      \<and> editingTask (component (turn (now + 100) (onDeleteTask now taskId w))) =
          (if map_option id_task (editingTask (component w)) = Some taskId then None
           else editingTask (component w)))
   \<and> (taskId \<notin> id_task ` set (tasks (taskService w)) \<longrightarrow>
        errorMessage (component (onDeleteTask now taskId w)) =
          ''Task with ID '' @ taskId @ '' not found''
      \<and> successMessage (component (onDeleteTask now taskId w)) = []
      \<and> editingTask (component (onDeleteTask now taskId w)) = editingTask (component w)
      \<and> subscriptions (onDeleteTask now taskId w) = subscriptions w
      \<and> timeouts (onDeleteTask now taskId w) = timeouts w
      \<and> taskService (onDeleteTask now taskId w) = taskService w)"
proof -
  have call: "onDeleteTask now taskId w =
        w\<lparr>taskService := fst (deleteTask (taskService w) taskId),
          component := clearMessages (component w),
          subscriptions := subscriptions w @ [(now + 100, taskId)]\<rparr>"
    if "taskId \<in> id_task ` set (tasks (taskService w))"
  proof -
    from that obtain s' where "deleteTask (taskService w) taskId = (s', Inr True)"
      using deleteTask_present by blast
    then show ?thesis
      by (simp add: onDeleteTask_present)
  qed
  have delivered:
    "successMessage (component (turn (now + 100) (onDeleteTask now taskId w))) =
          ''Task deleted successfully!''
      \<and> errorMessage (component (turn (now + 100) (onDeleteTask now taskId w))) = []
      \<and> editingTask (component (turn (now + 100) (onDeleteTask now taskId w))) =
          (if map_option id_task (editingTask (component w)) = Some taskId then None
           else editingTask (component w))"
    if p: "taskId \<in> id_task ` set (tasks (taskService w))" and s: "subscriptions w = []"
    unfolding turn_onDeleteTask [OF s p] next_onDeleteTask_fields
    by (auto simp: run_timeouts_fields clearMessages_def)
  have failed: "errorMessage (component (onDeleteTask now taskId w)) =
          ''Task with ID '' @ taskId @ '' not found''
      \<and> successMessage (component (onDeleteTask now taskId w)) = []
      \<and> editingTask (component (onDeleteTask now taskId w)) = editingTask (component w)
      \<and> subscriptions (onDeleteTask now taskId w) = subscriptions w
      \<and> timeouts (onDeleteTask now taskId w) = timeouts w
      \<and> taskService (onDeleteTask now taskId w) = taskService w"
    if a: "taskId \<notin> id_task ` set (tasks (taskService w))"
    by (simp add: onDeleteTask_absent [OF a])
  have A: "taskId \<in> id_task ` set (tasks (taskService w)) \<longrightarrow>
      onDeleteTask now taskId w =
        w\<lparr>taskService := fst (deleteTask (taskService w) taskId),
          component := clearMessages (component w),
          subscriptions := subscriptions w @ [(now + 100, taskId)]\<rparr>"
    using call by blast
  note B = next_onDeleteTask_fields(1-3) [of t taskId v]
  from A B delivered failed show ?thesis
    by blast
qed

theorem onDeleteTask_outcome_witness:
  "subscriptions demo_world = []
   \<and> ''task_1_1000'' \<in> id_task ` set (tasks (taskService demo_world))
   \<and> map_option id_task (editingTask (component demo_world)) = Some ''task_1_1000''
   \<and> subscriptions (onDeleteTask 5000 ''task_1_1000'' demo_world) = [(5100, ''task_1_1000'')]
   \<and> successMessage (component (turn 5100 (onDeleteTask 5000 ''task_1_1000'' demo_world))) =
       ''Task deleted successfully!''
   \<and> editingTask (component (turn 5100 (onDeleteTask 5000 ''task_1_1000'' demo_world))) = None
   \<and> ''task_2_1000'' \<in> id_task ` set (tasks (taskService demo_world))
   \<and> editingTask (component (turn 5100 (onDeleteTask 5000 ''task_2_1000'' demo_world))) =
       editingTask (component demo_world)
   \<and> ''invalid-id'' \<notin> id_task ` set (tasks (taskService demo_world))
   \<and> errorMessage (component (onDeleteTask 5000 ''invalid-id'' demo_world)) =
       ''Task with ID invalid-id not found''
   \<and> successMessage (component (onDeleteTask 5000 ''invalid-id'' demo_world)) = []"
proof -
  note s = demo_world_fields(2)
  have m: "''task_1_1000'' \<in> id_task ` set (tasks (taskService demo_world))"
    "''task_2_1000'' \<in> id_task ` set (tasks (taskService demo_world))"
    "''invalid-id'' \<notin> id_task ` set (tasks (taskService demo_world))"
    by (simp_all add: demo_world_fields demo_service_ids)
  have e: "map_option id_task (editingTask (component demo_world)) = Some ''task_1_1000''"
    by (simp add: demo_world_fields)
  from onDeleteTask_outcome [of "''task_1_1000''" demo_world 5000 0 demo_world] m(1) s
  have "onDeleteTask 5000 ''task_1_1000'' demo_world =
      demo_world\<lparr>taskService := fst (deleteTask (taskService demo_world) ''task_1_1000''),
        component := clearMessages (component demo_world),
        subscriptions := subscriptions demo_world @ [(5000 + 100, ''task_1_1000'')]\<rparr>"
    and a: "successMessage (component (turn (5000 + 100)
        (onDeleteTask 5000 ''task_1_1000'' demo_world))) = ''Task deleted successfully!''"
    and "editingTask (component (turn (5000 + 100)
        (onDeleteTask 5000 ''task_1_1000'' demo_world))) =
      (if map_option id_task (editingTask (component demo_world)) = Some ''task_1_1000''
       then None else editingTask (component demo_world))"
    by blast+
  then have 1:
    "subscriptions (onDeleteTask 5000 ''task_1_1000'' demo_world) = [(5100, ''task_1_1000'')]"
    "editingTask (component (turn 5100 (onDeleteTask 5000 ''task_1_1000'' demo_world))) = None"
    by (simp_all add: e s)
  from onDeleteTask_outcome [of "''task_2_1000''" demo_world 5000 0 demo_world] m(2) s
  have "editingTask (component (turn (5000 + 100)
        (onDeleteTask 5000 ''task_2_1000'' demo_world))) =
      (if map_option id_task (editingTask (component demo_world)) = Some ''task_2_1000''
       then None else editingTask (component demo_world))"
    by blast
  then have 2: "editingTask (component (turn 5100 (onDeleteTask 5000 ''task_2_1000'' demo_world))) =
       editingTask (component demo_world)"
    by (simp add: e)
  from onDeleteTask_outcome [of "''invalid-id''" demo_world 5000 0 demo_world] m(3)
  have 3: "errorMessage (component (onDeleteTask 5000 ''invalid-id'' demo_world)) =
       ''Task with ID '' @ ''invalid-id'' @ '' not found''"
    "successMessage (component (onDeleteTask 5000 ''invalid-id'' demo_world)) = []"
    by blast+
  from s m e 1 2 3 a show ?thesis
    by simp
qed

text \<open>
  Claim C2 says that the timer of a success message is cancelled when a newer message
  supersedes it and at teardown, so that nothing changes the component after teardown.
  \<open>showSuccess\<close> drops the handle of its timer and \<open>ngOnDestroy\<close> only ends the
  subscriptions. In the first scenario the second sample task is deleted at the instant
  0 and the component is destroyed while the message is shown: the timer is still pending
  and empties the message at 3100. In the second scenario the third sample task is
  deleted at 2000 instead; its message appears at 2100 and the timer of the first message
  removes it at 3100, after one second.
\<close>

theorem timeouts_are_never_cancelled:
  "successMessage (component (ngOnDestroy demo_shown)) = ''Task deleted successfully!''
   \<and> timeouts (ngOnDestroy demo_shown) = [3100]
   \<and> successMessage (component (turn 3100 (ngOnDestroy demo_shown))) = []
   \<and> successMessage (component (turn 2100 (onDeleteTask 2000 ''task_3_1000'' demo_shown))) =
       ''Task deleted successfully!''
   \<and> timeouts (turn 2100 (onDeleteTask 2000 ''task_3_1000'' demo_shown)) = [3100, 5100]
   \<and> successMessage (component
        (turn 3100 (turn 2100 (onDeleteTask 2000 ''task_3_1000'' demo_shown)))) = []"
proof -
  have "3100 \<in> set (timeouts demo_shown)"
    by (simp add: demo_shown_fields)
  then have 1: "successMessage (component (turn 3100 (ngOnDestroy demo_shown))) = []"
    by (rule timeout_after_ngOnDestroy) simp
  note g = delete_then_turn [OF demo_shown_fields(3) demo_shown_present, of 2000, simplified]
  have 2: "timeouts (turn 2100 (onDeleteTask 2000 ''task_3_1000'' demo_shown)) = [3100, 5100]"
    by (simp add: g demo_shown_fields)
  have 3: "successMessage (component
        (turn 3100 (turn 2100 (onDeleteTask 2000 ''task_3_1000'' demo_shown)))) = []"
    by (simp add: turn_without_subscriptions g(3) run_timeouts_fields 2)
  from 1 2 3 g(1) show ?thesis
    by (simp add: ngOnDestroy_fields demo_shown_fields)
qed

end
